theory Spec2Isabelle
  imports Complex_Main "HOL-Library.Monad_Syntax"
begin

section \<open>Python values and errors\<close>

text \<open>
  Python's unbounded integers are \<^typ>\<open>int\<close>. The exceptions that the modelled code can
  meet are values of \<open>py_error\<close>; a computation that may raise returns
  \<open>py_error + 'a\<close> with \<open>Inl\<close> for the exception.
\<close>

datatype py_error = ValueError | OSError | IndexError | ZeroDivisionError

section \<open>Per-offset counting\<close>

text \<open>
  \<^verbatim>\<open>
  def cases_for_offset(offset, stride, total):
      count = 0
      gidx = offset
      while gidx < total:
          count += 1
          gidx += stride
      return count
  \<close>
  The loop need not end (a stride that is not positive never reaches \<open>total\<close>), so it is
  a partial function: \<open>None\<close> stands for a call that does not return. The parameter
  \<open>total\<close> is written \<open>tot\<close>, since \<open>total\<close> is a constant of HOL.
\<close>

partial_function (option) cases_for_offset_loop :: "int \<Rightarrow> int \<Rightarrow> int \<Rightarrow> int \<Rightarrow> int option" where
  "cases_for_offset_loop count gidx stride tot =
     (if gidx < tot then cases_for_offset_loop (count + 1) (gidx + stride) stride tot
      else Some count)"

declare cases_for_offset_loop.simps [code]

definition cases_for_offset :: "int \<Rightarrow> int \<Rightarrow> int \<Rightarrow> int option" where
  "cases_for_offset offset stride tot = cases_for_offset_loop 0 offset stride tot"

text \<open>
  The closed form that the specification gives for the same count:
  \<open>ceil((total - offset) / stride)\<close> for \<open>offset < total\<close>, else 0.
\<close>

definition cases_for_offset_closed :: "int \<Rightarrow> int \<Rightarrow> int \<Rightarrow> int" where
  "cases_for_offset_closed offset stride tot =
     (if offset < tot then \<lceil>real_of_int (tot - offset) / real_of_int stride\<rceil> else 0)"

text \<open>
  \<^verbatim>\<open>
  def cases_done_for_offset(last_gidx, offset, stride):
      if last_gidx is None: return 0
      if last_gidx < offset: return 0
      if ((last_gidx - offset) % stride) != 0: return 0
      return (last_gidx - offset) // stride + 1
  \<close>
  Python's \<open>%\<close> and \<open>//\<close> round towards minus infinity, as \<open>mod\<close> and \<open>div\<close> on
  \<^typ>\<open>int\<close> do; with a zero divisor Python raises, which is written out.
\<close>

definition cases_done_for_offset :: "int option \<Rightarrow> int \<Rightarrow> int \<Rightarrow> py_error + int" where
  "cases_done_for_offset last_gidx offset stride =
     (case last_gidx of
        None \<Rightarrow> Inr 0
      | Some g \<Rightarrow>
          if g < offset then Inr 0
          else if stride = 0 then Inl ZeroDivisionError
          else if (g - offset) mod stride \<noteq> 0 then Inr 0
          else Inr ((g - offset) div stride + 1))"

text \<open>
  The closed form again, with the ceiling written as an integer division; the proofs about
  sums of counts use this form.
\<close>

definition cases_for_offset_div :: "int \<Rightarrow> int \<Rightarrow> int \<Rightarrow> int" where
  "cases_for_offset_div offset stride tot =
     (if offset < tot then (tot - offset + stride - 1) div stride else 0)"

section \<open>Python text operations\<close>

text \<open>
  Text is a \<^typ>\<open>string\<close>; a \<^typ>\<open>char\<close> stands for the code point of the same number, so
  the model covers text whose code points lie below 256. The character classes are those of
  Python 3 on that range: \<open>str.isspace\<close> (also the \<open>\s\<close> of \<open>re\<close>), the decimal digits
  (\<open>\d\<close>, and what \<open>int\<close> accepts), and the word characters of \<open>\w\<close> and \<open>\b\<close>
  (\<open>str.isalnum\<close> or the underscore).
\<close>

definition py_isspace :: "char \<Rightarrow> bool" where
  "py_isspace c = (let n = (of_char c :: nat) in
      (9 \<le> n \<and> n \<le> 13) \<or> (28 \<le> n \<and> n \<le> 32) \<or> n = 133 \<or> n = 160)"

definition py_isdecimal :: "char \<Rightarrow> bool" where
  "py_isdecimal c = (let n = (of_char c :: nat) in 48 \<le> n \<and> n \<le> 57)"

definition py_isalnum :: "char \<Rightarrow> bool" where
  "py_isalnum c = (let n = (of_char c :: nat) in
      (48 \<le> n \<and> n \<le> 57) \<or> (65 \<le> n \<and> n \<le> 90) \<or> (97 \<le> n \<and> n \<le> 122)
      \<or> n = 170 \<or> n = 178 \<or> n = 179 \<or> n = 181 \<or> n = 185 \<or> n = 186
      \<or> (188 \<le> n \<and> n \<le> 190) \<or> (192 \<le> n \<and> n \<le> 214) \<or> (216 \<le> n \<and> n \<le> 246)
      \<or> 248 \<le> n)"

definition py_isword :: "char \<Rightarrow> bool" where
  "py_isword c = (py_isalnum c \<or> c = CHR ''_'')"

text \<open>\<open>str.strip()\<close>: whitespace removed at both ends.\<close>

definition strip :: "string \<Rightarrow> string" where
  "strip s = rev (dropWhile py_isspace (rev (dropWhile py_isspace s)))"

text \<open>
  \<open>str.split()\<close> with no argument: the maximal runs of characters that are not whitespace,
  in order. \<open>cur\<close> holds the run being read, reversed.
\<close>

fun split_acc :: "string \<Rightarrow> string \<Rightarrow> string list" where
  "split_acc cur [] = (if cur = [] then [] else [rev cur])"
| "split_acc cur (c # cs) =
     (if py_isspace c then (if cur = [] then split_acc [] cs else rev cur # split_acc [] cs)
      else split_acc (c # cur) cs)"

definition split :: "string \<Rightarrow> string list" where
  "split s = split_acc [] s"

text \<open>
  \<open>str.splitlines()\<close>: the text cut at line boundaries (\<open>\n\<close>, \<open>\r\<close>, \<open>\r\n\<close>,
  \<open>\v\<close>, \<open>\f\<close>, the separators \<open>0x1c\<close> to \<open>0x1e\<close> and \<open>0x85\<close>), boundaries removed, with no
  empty last line after a final boundary.
\<close>

definition is_linebreak :: "char \<Rightarrow> bool" where
  "is_linebreak c = (let n = (of_char c :: nat) in
      (10 \<le> n \<and> n \<le> 13) \<or> (28 \<le> n \<and> n \<le> 30) \<or> n = 133)"

fun splitlines_acc :: "string \<Rightarrow> string \<Rightarrow> string list" where
  "splitlines_acc cur [] = (if cur = [] then [] else [rev cur])"
| "splitlines_acc cur (c # cs) =
     (if is_linebreak c then
        (if c = CHR 0x0D \<and> take 1 cs = [CHR 0x0A] then rev cur # splitlines_acc [] (drop 1 cs)
         else rev cur # splitlines_acc [] cs)
      else splitlines_acc (c # cur) cs)"

definition splitlines :: "string \<Rightarrow> string list" where
  "splitlines s = splitlines_acc [] s"

text \<open>
  \<open>int(s)\<close> in base 10: whitespace around the literal is dropped (the whitespace \<open>int\<close>
  accepts leaves out \<open>0x1c\<close> to \<open>0x1f\<close>), then an optional sign, then decimal digits in which
  single underscores may stand between digits. \<open>None\<close> is \<open>ValueError\<close>. The limit that
  recent Python versions put on the number of digits is not part of the model.
\<close>

definition int_isspace :: "char \<Rightarrow> bool" where
  "int_isspace c = (let n = (of_char c :: nat) in
      (9 \<le> n \<and> n \<le> 13) \<or> n = 32 \<or> n = 133 \<or> n = 160)"

definition digit_value :: "char \<Rightarrow> int" where
  "digit_value c = int (of_char c) - 48"

fun int_digits :: "bool \<Rightarrow> int \<Rightarrow> string \<Rightarrow> int option" where
  "int_digits after_digit acc [] = (if after_digit then Some acc else None)"
| "int_digits after_digit acc (c # cs) =
     (if py_isdecimal c then int_digits True (acc * 10 + digit_value c) cs
      else if c = CHR ''_'' \<and> after_digit then int_digits False acc cs
      else None)"

definition py_int :: "string \<Rightarrow> int option" where
  "py_int s =
     (case rev (dropWhile int_isspace (rev (dropWhile int_isspace s))) of
        [] \<Rightarrow> None
      | c # cs \<Rightarrow>
          if c = CHR ''-'' then map_option uminus (int_digits False 0 cs)
          else if c = CHR ''+'' then int_digits False 0 cs
          else int_digits False 0 (c # cs))"

text \<open>
  The slice \<open>xs[i:]\<close>. A negative \<open>i\<close> counts from the end and stops at the start of the
  list, so \<open>xs[-n:]\<close> is the last \<open>n\<close> elements for \<open>n > 0\<close>, the whole list for \<open>n = 0\<close>,
  and the list without its first \<open>-n\<close> elements for \<open>n < 0\<close>.
\<close>

definition py_slice_from :: "int \<Rightarrow> 'a list \<Rightarrow> 'a list" where
  "py_slice_from i xs =
     (if i < 0 then drop (nat (int (length xs) + i)) xs else drop (nat i) xs)"

section \<open>Regular expressions\<close>

text \<open>
  The four patterns of the source use literals, the classes \<open>\d\<close>, \<open>\s\<close>, \<open>.\<close> and
  \<open>[+-]\<close>, greedy repetition of a single class, optional and alternative groups, the word
  boundary \<open>\b\<close> and capture groups. \<open>rx\<close> is that fragment of the syntax of Python's \<open>re\<close>.
\<close>

datatype cclass = Digit | Space | AnyChar | Lit char | OneOf "char list"

fun in_class :: "cclass \<Rightarrow> char \<Rightarrow> bool" where
  "in_class Digit c = py_isdecimal c"
| "in_class Space c = py_isspace c"
| "in_class AnyChar c = (c \<noteq> CHR 0x0A)"
| "in_class (Lit l) c = (c = l)"
| "in_class (OneOf ls) c = (c \<in> set ls)"

datatype rx =
    Chr cclass
  | Rep cclass nat "nat option"
  | Opt "rx list"
  | Alt "rx list" "rx list"
  | WordB
  | Grp string "rx list"

text \<open>
  A position of the matcher: the character before it (for \<open>\b\<close>), the text after it, and
  the groups captured on the way.
\<close>

record mstate =
  prev :: "char option"
  rest :: string
  groups :: "(string \<times> string) list"

definition advance :: "nat \<Rightarrow> mstate \<Rightarrow> mstate" where
  "advance k st = st\<lparr>prev := (if k = 0 then prev st else Some (rest st ! (k - 1))),
                     rest := drop k (rest st)\<rparr>"

definition at_boundary :: "mstate \<Rightarrow> bool" where
  "at_boundary st =
     ((case prev st of None \<Rightarrow> False | Some c \<Rightarrow> py_isword c)
      \<noteq> (case rest st of [] \<Rightarrow> False | c # _ \<Rightarrow> py_isword c))"

text \<open>
  \<open>seq_ends p st\<close> lists the positions at which a match of the sequence \<open>p\<close> started at
  \<open>st\<close> can end, in the order in which a backtracking matcher tries them: a greedy
  repetition tries its longest run first, an optional group tries its body first, an
  alternative tries the left branch first. The match that \<open>re\<close> reports is the first one.
\<close>

fun rx_ends :: "rx \<Rightarrow> mstate \<Rightarrow> mstate list"
and seq_ends :: "rx list \<Rightarrow> mstate \<Rightarrow> mstate list" where
  "rx_ends (Chr c) st =
     (case rest st of [] \<Rightarrow> [] | x # _ \<Rightarrow> if in_class c x then [advance 1 st] else [])"
| "rx_ends (Rep c lo hi) st =
     (let run = length (takeWhile (in_class c) (rest st));
          top = (case hi of None \<Rightarrow> run | Some h \<Rightarrow> min h run)
      in map (\<lambda>k. advance k st) (rev [lo..<Suc top]))"
| "rx_ends (Opt rs) st = seq_ends rs st @ [st]"
| "rx_ends (Alt a b) st = seq_ends a st @ seq_ends b st"
| "rx_ends WordB st = (if at_boundary st then [st] else [])"
| "rx_ends (Grp name rs) st =
     map (\<lambda>st'. st'\<lparr>groups :=
                    (name, take (length (rest st) - length (rest st')) (rest st)) # groups st'\<rparr>)
       (seq_ends rs st)"
| "seq_ends [] st = [st]"
| "seq_ends (r # rs) st = concat (map (seq_ends rs) (rx_ends r st))"

definition first_match :: "rx list \<Rightarrow> mstate \<Rightarrow> (string \<times> string) list option" where
  "first_match p st = (case seq_ends p st of [] \<Rightarrow> None | m # _ \<Rightarrow> Some (groups m))"

text \<open>\<open>pattern.match(s)\<close>: a match that starts at the first character.\<close>

definition re_match :: "rx list \<Rightarrow> string \<Rightarrow> (string \<times> string) list option" where
  "re_match p s = first_match p \<lparr>prev = None, rest = s, groups = []\<rparr>"

text \<open>\<open>pattern.search(s)\<close>: the match at the leftmost position that has one.\<close>

fun search_from :: "rx list \<Rightarrow> char option \<Rightarrow> string \<Rightarrow> (string \<times> string) list option" where
  "search_from p b [] = first_match p \<lparr>prev = b, rest = [], groups = []\<rparr>"
| "search_from p b (c # cs) =
     (case first_match p \<lparr>prev = b, rest = c # cs, groups = []\<rparr> of
        Some m \<Rightarrow> Some m
      | None \<Rightarrow> search_from p (Some c) cs)"

definition re_search :: "rx list \<Rightarrow> string \<Rightarrow> (string \<times> string) list option" where
  "re_search p s = search_from p None s"

text \<open>
  \<open>m.group(name)\<close>. Every named group of the patterns below lies outside the optional
  parts, so a match binds it; the empty text is returned for a name that is not bound.
\<close>

definition group :: "(string \<times> string) list \<Rightarrow> string \<Rightarrow> string" where
  "group m name = (case map_of m name of None \<Rightarrow> [] | Some s \<Rightarrow> s)"

definition lit :: "string \<Rightarrow> rx list" where
  "lit s = map (\<lambda>c. Chr (Lit c)) s"

text \<open>
  The bracketed timestamp with which \<open>_DONE_RE\<close> and \<open>_TS_BRACKET_RE\<close> begin:
  \<^verbatim>\<open>\[(?P<ts>\d{4}-\d{2}-\d{2}T\d{2}:\d{2}:\d{2}(?:\.\d+)?(?:[+-]\d{2}:\d{2})?)\]\<close>
\<close>

definition timestamp_rx :: "rx list" where
  "timestamp_rx =
     lit ''['' @
     [Grp ''ts''
        ([Rep Digit 4 (Some 4)] @ lit ''-'' @ [Rep Digit 2 (Some 2)] @ lit ''-'' @
         [Rep Digit 2 (Some 2)] @ lit ''T'' @ [Rep Digit 2 (Some 2)] @ lit '':'' @
         [Rep Digit 2 (Some 2)] @ lit '':'' @ [Rep Digit 2 (Some 2)] @
         [Opt (lit ''.'' @ [Rep Digit 1 None]),
          Opt ([Chr (OneOf ''+-''), Rep Digit 2 (Some 2)] @ lit '':'' @
               [Rep Digit 2 (Some 2)])])] @
     lit '']''"

text \<open>
  \<^verbatim>\<open>_DONE_RE = <timestamp>\s+DONE\s+.*\bgidx=(?P<gidx>\d+)\b.*\bdt=(?P<dt>\d+\.?\d*)s\b\<close>
\<close>

definition DONE_RE :: "rx list" where
  "DONE_RE =
     timestamp_rx @ [Rep Space 1 None] @ lit ''DONE'' @ [Rep Space 1 None] @
     [Rep AnyChar 0 None, WordB] @ lit ''gidx='' @ [Grp ''gidx'' [Rep Digit 1 None], WordB] @
     [Rep AnyChar 0 None, WordB] @ lit ''dt='' @
     [Grp ''dt'' [Rep Digit 1 None, Rep (Lit CHR ''.'') 0 (Some 1), Rep Digit 0 None]] @
     lit ''s'' @ [WordB]"

definition TS_BRACKET_RE :: "rx list" where
  "TS_BRACKET_RE = timestamp_rx"

text \<open>
  \<^verbatim>\<open>_WORKER_START_RE = ^\[worker\s+(?P<wid>\d+)\]\s+start\s+offset=(?P<off>\d+)\b\<close>
  \<^verbatim>\<open>_WORKER_DONE_RE = ^\[worker\s+(?P<wid>\d+)\]\s+(done|failed)\s+offset=(?P<off>\d+)\b\<close>
  Both are used with \<open>match\<close>, which already starts at the first character. The unnamed
  group of the second pattern has the number 2.
\<close>

definition WORKER_START_RE :: "rx list" where
  "WORKER_START_RE =
     lit ''[worker'' @ [Rep Space 1 None, Grp ''wid'' [Rep Digit 1 None]] @ lit '']'' @
     [Rep Space 1 None] @ lit ''start'' @ [Rep Space 1 None] @ lit ''offset='' @
     [Grp ''off'' [Rep Digit 1 None], WordB]"

definition WORKER_DONE_RE :: "rx list" where
  "WORKER_DONE_RE =
     lit ''[worker'' @ [Rep Space 1 None, Grp ''wid'' [Rep Digit 1 None]] @ lit '']'' @
     [Rep Space 1 None, Grp ''2'' [Alt (lit ''done'') (lit ''failed'')], Rep Space 1 None] @
     lit ''offset='' @ [Grp ''off'' [Rep Digit 1 None], WordB]"

section \<open>Files\<close>

text \<open>
  What a path of the monitored directories holds when it is used: nothing; a path that
  cannot even be tested (\<open>Inaccessible\<close>); a file that cannot be read (\<open>OSError\<close>); a
  file whose bytes are not valid text; or text. For bytes that are not valid text, the
  argument is the text that decoding with \<open>errors="replace"\<close> yields; strict decoding
  raises \<open>UnicodeDecodeError\<close>, which is a \<open>ValueError\<close>.

  \<open>Path.exists()\<close> answers \<open>False\<close> when the test fails with one of the errors \<open>ENOENT\<close>,
  \<open>ENOTDIR\<close>, \<open>EBADF\<close> and \<open>ELOOP\<close>, and raises every other \<open>OSError\<close> of the test (a
  directory that may not be searched, a name that is too long): that is the case
  \<open>Inaccessible\<close>. Every call of \<open>exists\<close> in the source stands outside a \<open>try\<close>.
\<close>

datatype artifact = Missing | Inaccessible | Unreadable | Undecodable string | Text string

fun path_exists :: "artifact \<Rightarrow> py_error + bool" where
  "path_exists Missing = Inr False"
| "path_exists Inaccessible = Inl OSError"
| "path_exists Unreadable = Inr True"
| "path_exists (Undecodable s) = Inr True"
| "path_exists (Text s) = Inr True"

fun read_text :: "artifact \<Rightarrow> py_error + string" where
  "read_text Missing = Inl OSError"
| "read_text Inaccessible = Inl OSError"
| "read_text Unreadable = Inl OSError"
| "read_text (Undecodable s) = Inl ValueError"
| "read_text (Text s) = Inr s"

text \<open>\<open>read_text(errors="replace")\<close> raises \<open>OSError\<close> only; \<open>None\<close> stands for it.\<close>

fun read_text_replace :: "artifact \<Rightarrow> string option" where
  "read_text_replace Missing = None"
| "read_text_replace Inaccessible = None"
| "read_text_replace Unreadable = None"
| "read_text_replace (Undecodable s) = Some s"
| "read_text_replace (Text s) = Some s"

text \<open>
  The files of one run, and the two library functions whose results the model does not
  compute. The state file of an offset is found by the sanitized graph name, the rank, the
  stride and the offset, which make up its name; the log of an offset by the jobset and the
  offset. \<open>fromisoformat\<close> and \<open>py_float\<close> stand for \<open>datetime.fromisoformat\<close> and
  \<open>float\<close> on text, with \<open>None\<close> for \<open>ValueError\<close>.
\<close>

record ('ts, 'fl) env =
  state_file :: "string \<Rightarrow> int \<Rightarrow> int \<Rightarrow> int \<Rightarrow> artifact"
  log_file :: "string \<Rightarrow> int \<Rightarrow> artifact"
  fromisoformat :: "string \<Rightarrow> 'ts option"
  py_float :: "string \<Rightarrow> 'fl option"

text \<open>
  \<^verbatim>\<open>
  def sanitize_for_filename(s):
      return "".join(c if (c.isalnum() or c in "._-") else "_" for c in str(s))
  \<close>
\<close>

definition sanitize_for_filename :: "string \<Rightarrow> string" where
  "sanitize_for_filename s =
     map (\<lambda>c. if py_isalnum c \<or> c \<in> set ''._-'' then c else CHR ''_'') s"

section \<open>The checkpoint reader\<close>

text \<open>
  \<^verbatim>\<open>
  def parse_state_file(path):
      if not path.exists():
          return None
      try:
          text = path.read_text().strip()
          if not text:
              return None
          return int(text.split()[0])
      except (ValueError, OSError):
          return None
  \<close>
  \<open>parse_state_file_try\<close> is the body of the \<open>try\<close>, with every exception it can raise;
  \<open>parse_state_file\<close> adds the test before it, whose own exception is not handled, and
  the handler.
\<close>

definition parse_state_file_try :: "artifact \<Rightarrow> py_error + int option" where
  "parse_state_file_try path =
     (case read_text path of
        Inl e \<Rightarrow> Inl e
      | Inr raw \<Rightarrow>
          (let text = strip raw in
           if text = [] then Inr None
           else (case split text of
                   [] \<Rightarrow> Inl IndexError
                 | token # _ \<Rightarrow>
                     (case py_int token of None \<Rightarrow> Inl ValueError | Some n \<Rightarrow> Inr (Some n)))))"

definition parse_state_file :: "artifact \<Rightarrow> py_error + int option" where
  "parse_state_file path =
     (case path_exists path of
        Inl e \<Rightarrow> Inl e
      | Inr found \<Rightarrow>
          if \<not> found then Inr None
          else (case parse_state_file_try path of
                  Inl e \<Rightarrow> if e = ValueError \<or> e = OSError then Inr None else Inl e
                | Inr r \<Rightarrow> Inr r))"

text \<open>
  The leading whitespace-delimited token of a text, in the words of the specification:
  the first maximal run of characters that are not whitespace, if there is one.
\<close>

definition leading_token :: "string \<Rightarrow> string option" where
  "leading_token s =
     (case dropWhile py_isspace s of
        [] \<Rightarrow> None
      | c # cs \<Rightarrow> Some (takeWhile (\<lambda>x. \<not> py_isspace x) (c # cs)))"

section \<open>The log readers\<close>

text \<open>
  \<^verbatim>\<open>
  def parse_log_times(path, max_lines=2000):
      results = []
      if not path.exists(): return results
      try:
          lines = path.read_text(errors="replace").splitlines()[-max_lines:]
      except OSError:
          return results
      for line in lines:
          m = _DONE_RE.search(line)
          if not m: continue
          try:
              ts = datetime.fromisoformat(m.group("ts"))
              dt = float(m.group("dt"))
          except ValueError:
              continue
          results.append((ts, dt))
      return results
  \<close>
\<close>

text \<open>
  The start that the three readers of a log share: the test of the path, which may
  raise, and the read of the tail, whose \<open>OSError\<close> is handled. \<open>Inr None\<close> is a log
  that is missing or cannot be read.
\<close>

definition log_tail :: "artifact \<Rightarrow> int \<Rightarrow> py_error + string list option" where
  "log_tail path max_lines =
     (case path_exists path of
        Inl e \<Rightarrow> Inl e
      | Inr found \<Rightarrow>
          if \<not> found then Inr None
          else (case read_text_replace path of
                  None \<Rightarrow> Inr None
                | Some txt \<Rightarrow> Inr (Some (py_slice_from (- max_lines) (splitlines txt)))))"

definition done_time :: "('ts, 'fl) env \<Rightarrow> string \<Rightarrow> ('ts \<times> 'fl) list" where
  "done_time e line =
     (case re_search DONE_RE line of
        None \<Rightarrow> []
      | Some m \<Rightarrow>
          (case fromisoformat e (group m ''ts'') of
             None \<Rightarrow> []
           | Some ts \<Rightarrow>
               (case py_float e (group m ''dt'') of None \<Rightarrow> [] | Some dt \<Rightarrow> [(ts, dt)])))"

definition parse_log_times ::
  "('ts, 'fl) env \<Rightarrow> artifact \<Rightarrow> int \<Rightarrow> py_error + ('ts \<times> 'fl) list" where
  "parse_log_times e path max_lines =
     (case log_tail path max_lines of
        Inl err \<Rightarrow> Inl err
      | Inr None \<Rightarrow> Inr []
      | Inr (Some lines) \<Rightarrow> Inr (concat (map (done_time e) lines)))"

text \<open>
  \<^verbatim>\<open>
  def get_last_activity(path, max_lines=2000):
      ...
      for line in reversed(lines):
          m = _TS_BRACKET_RE.search(line)
          if not m: continue
          try:
              return datetime.fromisoformat(m.group("ts"))
          except ValueError:
              continue
      return None
  \<close>
\<close>

fun first_timestamp :: "('ts, 'fl) env \<Rightarrow> string list \<Rightarrow> 'ts option" where
  "first_timestamp e [] = None"
| "first_timestamp e (line # lines) =
     (case re_search TS_BRACKET_RE line of
        None \<Rightarrow> first_timestamp e lines
      | Some m \<Rightarrow>
          (case fromisoformat e (group m ''ts'') of
             None \<Rightarrow> first_timestamp e lines
           | Some ts \<Rightarrow> Some ts))"

definition get_last_activity ::
  "('ts, 'fl) env \<Rightarrow> artifact \<Rightarrow> int \<Rightarrow> py_error + 'ts option" where
  "get_last_activity e path max_lines =
     (case log_tail path max_lines of
        Inl err \<Rightarrow> Inl err
      | Inr None \<Rightarrow> Inr None
      | Inr (Some lines) \<Rightarrow> Inr (first_timestamp e (rev lines)))"

section \<open>The progress snapshot\<close>

text \<open>
  The dataclasses \<open>WorkerState\<close> and \<open>JobProgress\<close>. Their fields carry the prefixes
  \<open>w_\<close> and \<open>jp_\<close>, since the field names are also the names of parameters and local
  variables of the functions. \<open>math.comb\<close> raises \<open>ValueError\<close> for a negative argument.
\<close>

record ('ts, 'fl) WorkerState =
  w_offset :: int
  w_stride :: int
  w_last_gidx :: "int option"
  w_cases_done :: int
  w_cases_total :: int
  w_last_timestamp :: "'ts option"
  w_recent_times :: "'fl list"
  w_status :: string

record ('ts, 'fl) JobProgress =
  jp_jobset :: string
  jp_graph :: string
  jp_rank :: int
  jp_n_vertices :: int
  jp_dim :: int
  jp_kdim :: int
  jp_total_cases :: int
  jp_stride :: int
  jp_workers :: "('ts, 'fl) WorkerState list"

text \<open>The properties \<open>cases_done\<close> and \<open>cases_remaining\<close> of \<open>JobProgress\<close>.\<close>

definition jp_cases_done :: "('ts, 'fl) JobProgress \<Rightarrow> int" where
  "jp_cases_done progress = sum_list (map w_cases_done (jp_workers progress))"

definition jp_cases_remaining :: "('ts, 'fl) JobProgress \<Rightarrow> int" where
  "jp_cases_remaining progress = max 0 (jp_total_cases progress - jp_cases_done progress)"

definition math_comb :: "int \<Rightarrow> int \<Rightarrow> py_error + int" where
  "math_comb n k =
     (if n < 0 \<or> k < 0 then Inl ValueError else Inr (int (nat n choose nat k)))"

text \<open>
  The body of the loop of \<open>analyze_job\<close> for one offset. \<open>None\<close> is a call that does not
  return (the counting loop), \<open>Some (Inl e)\<close> an exception, \<open>Some (Inr w)\<close> the
  \<open>WorkerState\<close> that the source appends. The variable \<open>times\<close> is written
  \<open>time_pairs\<close>, since \<open>times\<close> is a constant of HOL.
  \<^verbatim>\<open>
        last_gidx = parse_state_file(state_file)
        cases_total = cases_for_offset(offset, stride, total_cases)
        cases_done = cases_done_for_offset(last_gidx, offset, stride)
        times = parse_log_times(log_file, max_lines=log_max_lines)
        recent_times = [dt for _, dt in times[-50:]]
        last_ts = get_last_activity(log_file, max_lines=log_max_lines)
        if cases_done >= cases_total and cases_total > 0:
            status = "completed"
        elif cases_done == 0 and last_gidx is None:
            status = "not_started"
        else:
            status = "running"
  \<close>
\<close>

definition analyze_offset ::
  "('ts, 'fl) env \<Rightarrow> string \<Rightarrow> string \<Rightarrow> int \<Rightarrow> int \<Rightarrow> int \<Rightarrow> int \<Rightarrow> int
     \<Rightarrow> (py_error + ('ts, 'fl) WorkerState) option" where
  "analyze_offset e jobset graph_sanitized rank stride total_cases log_max_lines offset =
     (case parse_state_file (state_file e graph_sanitized rank stride offset) of
        Inl err \<Rightarrow> Some (Inl err)
      | Inr last_gidx \<Rightarrow>
          (case cases_for_offset offset stride total_cases of
             None \<Rightarrow> None
           | Some cases_total \<Rightarrow>
               (case cases_done_for_offset last_gidx offset stride of
                  Inl err \<Rightarrow> Some (Inl err)
                | Inr cases_done \<Rightarrow>
                    (case parse_log_times e (log_file e jobset offset) log_max_lines of
                       Inl err \<Rightarrow> Some (Inl err)
                     | Inr time_pairs \<Rightarrow>
                         (case get_last_activity e (log_file e jobset offset) log_max_lines of
                            Inl err \<Rightarrow> Some (Inl err)
                          | Inr last_ts \<Rightarrow>
                              (let recent_times = map snd (py_slice_from (- 50) time_pairs);
                                   status =
                                     (if cases_done \<ge> cases_total \<and> cases_total > 0
                                      then ''completed''
                                      else if cases_done = 0 \<and> last_gidx = None
                                      then ''not_started''
                                      else ''running'')
                               in Some (Inr \<lparr>w_offset = offset, w_stride = stride,
                                      w_last_gidx = last_gidx, w_cases_done = cases_done,
                                      w_cases_total = cases_total, w_last_timestamp = last_ts,
                                      w_recent_times = recent_times, w_status = status\<rparr>)))))))"

text \<open>The loop \<open>for offset in range(stride)\<close>, appending to \<open>progress.workers\<close>.\<close>

fun analyze_offsets ::
  "('ts, 'fl) env \<Rightarrow> int \<Rightarrow> int list \<Rightarrow> ('ts, 'fl) JobProgress
     \<Rightarrow> (py_error + ('ts, 'fl) JobProgress) option" where
  "analyze_offsets e log_max_lines [] progress = Some (Inr progress)"
| "analyze_offsets e log_max_lines (offset # offsets) progress =
     (case analyze_offset e (jp_jobset progress) (sanitize_for_filename (jp_graph progress))
             (jp_rank progress) (jp_stride progress) (jp_total_cases progress)
             log_max_lines offset of
        None \<Rightarrow> None
      | Some (Inl err) \<Rightarrow> Some (Inl err)
      | Some (Inr worker) \<Rightarrow>
          analyze_offsets e log_max_lines offsets
            (progress\<lparr>jp_workers := jp_workers progress @ [worker]\<rparr>))"

text \<open>
  \<^verbatim>\<open>
  def analyze_job(jobset, graph, rank, n_vertices, stride, notebook_dir, var_dir, log_max_lines):
      dim = n_vertices - 1
      kdim = dim - rank
      total_cases = math.comb(dim, kdim)
      progress = JobProgress(...)
      graph_sanitized = sanitize_for_filename(graph)
      for offset in range(stride): ...
      return progress
  \<close>
  The two directories are part of \<open>env\<close>. \<open>range(stride)\<close> is \<open>[0..stride - 1]\<close>, empty
  for a stride below 1.
\<close>

definition analyze_job ::
  "('ts, 'fl) env \<Rightarrow> string \<Rightarrow> string \<Rightarrow> int \<Rightarrow> int \<Rightarrow> int \<Rightarrow> int
     \<Rightarrow> (py_error + ('ts, 'fl) JobProgress) option" where
  "analyze_job e jobset graph rank n_vertices stride log_max_lines =
     (let dim = n_vertices - 1; kdim = dim - rank in
      case math_comb dim kdim of
        Inl err \<Rightarrow> Some (Inl err)
      | Inr total_cases \<Rightarrow>
          analyze_offsets e log_max_lines [0..stride - 1]
            \<lparr>jp_jobset = jobset, jp_graph = graph, jp_rank = rank, jp_n_vertices = n_vertices,
             jp_dim = dim, jp_kdim = kdim, jp_total_cases = total_cases, jp_stride = stride,
             jp_workers = []\<rparr>)"

section \<open>Attribution of completion events to workers\<close>

text \<open>
  The variables of \<open>worker_case_breakdown_from_logs\<close>: the \<open>JobProgress\<close> it was given,
  the dictionary \<open>per_worker\<close>, the set \<open>all_gidx\<close> and \<open>current_wid\<close>. The function is a
  transformation of this state, so that what it does to the \<open>JobProgress\<close> can be stated.
  \<open>raised\<close> is the exception that has ended the function, if one has: the state is then
  the state at the raise, and the function returns nothing.
\<close>

record ('ts, 'fl) breakdown =
  b_progress :: "('ts, 'fl) JobProgress"
  per_worker :: "int \<rightharpoonup> int set"
  all_gidx :: "int set"
  current_wid :: "int option"
  raised :: "py_error option"

text \<open>
  The body of the loop over the lines of one log:
  \<^verbatim>\<open>
            mws = _WORKER_START_RE.match(line)
            if mws:
                try: current_wid = int(mws.group("wid"))
                except ValueError: current_wid = None
                continue
            md = _DONE_RE.search(line)
            if md:
                try: gidx = int(md.group("gidx"))
                except ValueError: continue
                all_gidx.add(gidx)
                wid = current_wid if current_wid is not None else 0
                per_worker.setdefault(wid, set()).add(gidx)
                continue
            if _WORKER_DONE_RE.match(line):
                current_wid = None
  \<close>
\<close>

definition record_gidx :: "int \<Rightarrow> ('ts, 'fl) breakdown \<Rightarrow> ('ts, 'fl) breakdown" where
  "record_gidx gidx b =
     (let wid = (case current_wid b of Some w \<Rightarrow> w | None \<Rightarrow> 0);
          old = (case per_worker b wid of None \<Rightarrow> {} | Some g \<Rightarrow> g)
      in b\<lparr>all_gidx := insert gidx (all_gidx b),
            per_worker := (per_worker b)(wid \<mapsto> insert gidx old)\<rparr>)"

definition attribute_line :: "string \<Rightarrow> ('ts, 'fl) breakdown \<Rightarrow> ('ts, 'fl) breakdown" where
  "attribute_line line b =
     (case re_match WORKER_START_RE line of
        Some mws \<Rightarrow> b\<lparr>current_wid := py_int (group mws ''wid'')\<rparr>
      | None \<Rightarrow>
          (case re_search DONE_RE line of
             Some md \<Rightarrow>
               (case py_int (group md ''gidx'') of
                  None \<Rightarrow> b
                | Some gidx \<Rightarrow> record_gidx gidx b)
           | None \<Rightarrow>
               if re_match WORKER_DONE_RE line \<noteq> None then b\<lparr>current_wid := None\<rparr> else b))"

text \<open>
  The body of the loop over \<open>progress.workers\<close>:
  \<^verbatim>\<open>
        log_file = var_dir / jobset / "log" / f"{jobset}_off{w.offset}.log"
        if not log_file.exists():
            continue
        try:
            lines = log_file.read_text(errors="replace").splitlines()[-log_max_lines:]
        except OSError:
            continue
        current_wid = None
        for line in lines: ...
  \<close>
  The test of the path may raise; a log that is missing or cannot be read is skipped;
  otherwise \<open>current_wid\<close> starts as \<open>None\<close> and the lines of the tail are replayed in
  file order.
\<close>

definition scan_worker_log ::
  "('ts, 'fl) env \<Rightarrow> int \<Rightarrow> ('ts, 'fl) WorkerState \<Rightarrow> ('ts, 'fl) breakdown
     \<Rightarrow> ('ts, 'fl) breakdown" where
  "scan_worker_log e log_max_lines w b =
     (case log_tail (log_file e (jp_jobset (b_progress b)) (w_offset w)) log_max_lines of
        Inl err \<Rightarrow> b\<lparr>raised := Some err\<rparr>
      | Inr None \<Rightarrow> b
      | Inr (Some lines) \<Rightarrow> fold attribute_line lines (b\<lparr>current_wid := None\<rparr>))"

text \<open>The loop \<open>for w in progress.workers\<close>, which an exception leaves.\<close>

fun scan_workers ::
  "('ts, 'fl) env \<Rightarrow> int \<Rightarrow> ('ts, 'fl) WorkerState list \<Rightarrow> ('ts, 'fl) breakdown
     \<Rightarrow> ('ts, 'fl) breakdown" where
  "scan_workers e log_max_lines [] b = b"
| "scan_workers e log_max_lines (w # ws) b =
     (let b' = scan_worker_log e log_max_lines w b in
      if raised b' \<noteq> None then b' else scan_workers e log_max_lines ws b')"

text \<open>
  The state at the start of the function: an empty dictionary and an empty set.
  \<open>current_wid\<close> is assigned before each log is replayed.
\<close>

definition breakdown_init :: "('ts, 'fl) JobProgress \<Rightarrow> ('ts, 'fl) breakdown" where
  "breakdown_init progress =
     \<lparr>b_progress = progress, per_worker = Map.empty, all_gidx = {}, current_wid = None,
      raised = None\<rparr>"

text \<open>
  \<open>breakdown_run\<close> is the state in which the function ends; what the caller gets is the
  exception, or the pair \<open>per_worker, all_gidx\<close> of the \<open>return\<close>.
\<close>

definition breakdown_run ::
  "('ts, 'fl) env \<Rightarrow> ('ts, 'fl) JobProgress \<Rightarrow> int \<Rightarrow> ('ts, 'fl) breakdown" where
  "breakdown_run e progress log_max_lines =
     scan_workers e log_max_lines (jp_workers progress) (breakdown_init progress)"

definition worker_case_breakdown_from_logs ::
  "('ts, 'fl) env \<Rightarrow> ('ts, 'fl) JobProgress \<Rightarrow> int
     \<Rightarrow> py_error + (int \<rightharpoonup> int set) \<times> int set" where
  "worker_case_breakdown_from_logs e progress log_max_lines =
     (let b = breakdown_run e progress log_max_lines in
      case raised b of Some err \<Rightarrow> Inl err | None \<Rightarrow> Inr (per_worker b, all_gidx b))"

text \<open>
  The three line shapes of the attribution, each read off one pattern alone: the worker
  identity of a line that matches the worker-start pattern, the global index of a line in
  which the completion pattern is found, and whether a line matches the done/failed
  pattern. The inner \<open>None\<close> is a number that \<open>int\<close> rejects.
\<close>

definition worker_start_id :: "string \<Rightarrow> int option option" where
  "worker_start_id line =
     map_option (\<lambda>m. py_int (group m ''wid'')) (re_match WORKER_START_RE line)"

definition completion_gidx :: "string \<Rightarrow> int option option" where
  "completion_gidx line =
     map_option (\<lambda>m. py_int (group m ''gidx'')) (re_search DONE_RE line)"

definition worker_end :: "string \<Rightarrow> bool" where
  "worker_end line = (re_match WORKER_DONE_RE line \<noteq> None)"

section \<open>Example runs\<close>

text \<open>
  The end-to-end example of the specification: 16 vertices, rank 3, stride 4, so 455
  cases; the checkpoint of offset 0 holds 452, that of offset 2 holds 6, the others are
  absent, and there are no logs. Timestamps and durations are kept as their text.
\<close>

definition spec_example_env :: "(string, string) env" where
  "spec_example_env =
     \<lparr>state_file = (\<lambda>graph_sanitized rank stride offset.
          if offset = 0 then Text ''452'' else if offset = 2 then Text ''6'' else Missing),
      log_file = (\<lambda>jobset offset. Missing),
      fromisoformat = Some, py_float = Some\<rparr>"

text \<open>The same run with a checkpoint of offset 0 that lies beyond the last case.\<close>

definition overflow_env :: "(string, string) env" where
  "overflow_env =
     \<lparr>state_file = (\<lambda>graph_sanitized rank stride offset.
          if offset = 0 then Text ''4000'' else Missing),
      log_file = (\<lambda>jobset offset. Missing),
      fromisoformat = Some, py_float = Some\<rparr>"

text \<open>
  The run of the specification's example with a state directory that may not be
  searched: the existence test of every state file raises.
\<close>

definition locked_env :: "(string, string) env" where
  "locked_env =
     \<lparr>state_file = (\<lambda>graph_sanitized rank stride offset. Inaccessible),
      log_file = (\<lambda>jobset offset. Missing),
      fromisoformat = Some, py_float = Some\<rparr>"

text \<open>The snapshots that the two runs produce.\<close>

definition spec_example_progress :: "(string, string) JobProgress" where
  "spec_example_progress =
     \<lparr>jp_jobset = ''shri_r3'', jp_graph = ''shrikhande'', jp_rank = 3, jp_n_vertices = 16,
      jp_dim = 15, jp_kdim = 12, jp_total_cases = 455, jp_stride = 4,
      jp_workers =
        [\<lparr>w_offset = 0, w_stride = 4, w_last_gidx = Some 452, w_cases_done = 114,
          w_cases_total = 114, w_last_timestamp = None, w_recent_times = [],
          w_status = ''completed''\<rparr>,
         \<lparr>w_offset = 1, w_stride = 4, w_last_gidx = None, w_cases_done = 0,
          w_cases_total = 114, w_last_timestamp = None, w_recent_times = [],
          w_status = ''not_started''\<rparr>,
         \<lparr>w_offset = 2, w_stride = 4, w_last_gidx = Some 6, w_cases_done = 2,
          w_cases_total = 114, w_last_timestamp = None, w_recent_times = [],
          w_status = ''running''\<rparr>,
         \<lparr>w_offset = 3, w_stride = 4, w_last_gidx = None, w_cases_done = 0,
          w_cases_total = 113, w_last_timestamp = None, w_recent_times = [],
          w_status = ''not_started''\<rparr>]\<rparr>"

definition overflow_progress :: "(string, string) JobProgress" where
  "overflow_progress =
     \<lparr>jp_jobset = ''shri_r3'', jp_graph = ''shrikhande'', jp_rank = 3, jp_n_vertices = 16,
      jp_dim = 15, jp_kdim = 12, jp_total_cases = 455, jp_stride = 4,
      jp_workers =
        [\<lparr>w_offset = 0, w_stride = 4, w_last_gidx = Some 4000, w_cases_done = 1001,
          w_cases_total = 114, w_last_timestamp = None, w_recent_times = [],
          w_status = ''completed''\<rparr>,
         \<lparr>w_offset = 1, w_stride = 4, w_last_gidx = None, w_cases_done = 0,
          w_cases_total = 114, w_last_timestamp = None, w_recent_times = [],
          w_status = ''not_started''\<rparr>,
         \<lparr>w_offset = 2, w_stride = 4, w_last_gidx = None, w_cases_done = 0,
          w_cases_total = 114, w_last_timestamp = None, w_recent_times = [],
          w_status = ''not_started''\<rparr>,
         \<lparr>w_offset = 3, w_stride = 4, w_last_gidx = None, w_cases_done = 0,
          w_cases_total = 113, w_last_timestamp = None, w_recent_times = [],
          w_status = ''not_started''\<rparr>]\<rparr>"

text \<open>
  The attribution example of the specification, as the log of offset 0 of a job with one
  offset: a start line of worker 3, two completion events, the done line, and one more
  completion event.
\<close>

definition start_line :: string where
  "start_line = ''[worker 3] start offset=0''"

definition first_event :: string where
  "first_event = ''[2024-01-01T00:00:01] DONE gidx=0 dt=1.0s''"

definition second_event :: string where
  "second_event = ''[2024-01-01T00:00:02] DONE gidx=1 dt=1.5s''"

definition done_line :: string where
  "done_line = ''[worker 3] done offset=0''"

definition third_event :: string where
  "third_event = ''[2024-01-01T00:00:03] DONE gidx=2 dt=2s''"

definition example_log :: "string list" where
  "example_log = [start_line, first_event, second_event, done_line, third_event]"

definition unlines :: "string list \<Rightarrow> string" where
  "unlines ls = concat (map (\<lambda>l. l @ [CHR 0x0A]) ls)"

definition example_log_env :: "(string, string) env" where
  "example_log_env =
     \<lparr>state_file = (\<lambda>graph_sanitized rank stride offset. Missing),
      log_file = (\<lambda>jobset offset. if offset = 0 then Text (unlines example_log) else Missing),
      fromisoformat = Some, py_float = Some\<rparr>"

definition one_offset_progress :: "(string, string) JobProgress" where
  "one_offset_progress =
     \<lparr>jp_jobset = ''job'', jp_graph = ''petersen'', jp_rank = 1, jp_n_vertices = 10,
      jp_dim = 9, jp_kdim = 8, jp_total_cases = 9, jp_stride = 1,
      jp_workers =
        [\<lparr>w_offset = 0, w_stride = 1, w_last_gidx = None, w_cases_done = 0,
          w_cases_total = 9, w_last_timestamp = None, w_recent_times = [],
          w_status = ''not_started''\<rparr>]\<rparr>"

text \<open>
  Two lines in which the completion pattern is found although they begin as a worker
  line, and the log that holds only the first of them.
\<close>

definition start_and_done_line :: string where
  "start_and_done_line = ''[worker 3] start offset=0 [2024-01-01T00:00:00] DONE gidx=5 dt=1s''"

definition end_and_done_line :: string where
  "end_and_done_line = ''[worker 3] done offset=0 [2024-01-01T00:00:00] DONE gidx=5 dt=1s''"

definition overlap_log_env :: "(string, string) env" where
  "overlap_log_env =
     \<lparr>state_file = (\<lambda>graph_sanitized rank stride offset. Missing),
      log_file = (\<lambda>jobset offset.
         if offset = 0 then Text (unlines [start_and_done_line]) else Missing),
      fromisoformat = Some, py_float = Some\<rparr>"

section \<open>Arithmetic of the counting loop\<close>

lemma div_shift:
  fixes b :: int
  assumes "1 \<le> b" and "0 \<le> x" and "x < b"
  shows "(x + c * b) div b = c"
proof -
  have "b \<noteq> 0" using assms by simp
  then have "(x + c * b) div b = c + x div b" by (rule div_mult_self1)
  moreover have "x div b = 0" using assms by simp
  ultimately show ?thesis by simp
qed

lemma ceil_div:
  fixes stride :: int
  assumes s: "1 \<le> stride"
  shows "\<lceil>real_of_int a / real_of_int stride\<rceil> = (a + stride - 1) div stride"
proof -
  define q where "q = a div stride"
  define r where "r = a mod stride"
  have a: "a = r + q * stride" by (simp add: q_def r_def)
  have r0: "0 \<le> r" and r1: "r < stride" using s by (simp_all add: r_def)
  have c: "\<lceil>real_of_int a / real_of_int stride\<rceil> = - ((- a) div stride)"
    by (simp add: ceiling_divide_eq_div)
  show ?thesis
  proof (cases "r = 0")
    case True
    have e1: "- a = 0 + (- q) * stride" using a True by simp
    have "(- a) div stride = - q" unfolding e1 by (rule div_shift) (use s in simp_all)
    moreover have e2: "a + stride - 1 = (stride - 1) + q * stride" using a True by simp
    have "(a + stride - 1) div stride = q" unfolding e2 by (rule div_shift) (use s in simp_all)
    ultimately show ?thesis using c by simp
  next
    case False
    have e1: "- a = (stride - r) + (- q - 1) * stride" using a by (simp add: algebra_simps)
    have "(- a) div stride = - q - 1"
      unfolding e1 by (rule div_shift) (use s r0 r1 False in simp_all)
    moreover have e2: "a + stride - 1 = (r - 1) + (q + 1) * stride"
      using a by (simp add: algebra_simps)
    have "(a + stride - 1) div stride = q + 1"
      unfolding e2 by (rule div_shift) (use s r0 r1 False in simp_all)
    ultimately show ?thesis using c by simp
  qed
qed

text \<open>
  The loop invariant: from any state, the loop adds to \<open>count\<close> the number of steps of
  width \<open>stride\<close> that fit below \<open>tot\<close>. The measure is the distance to \<open>tot\<close>.
\<close>

lemma cases_for_offset_loop_returns:
  assumes s: "1 \<le> stride"
  shows "cases_for_offset_loop count gidx stride tot =
     Some (count + (if gidx < tot then (tot - gidx + stride - 1) div stride else 0))"
  using s
proof (induction "nat (tot - gidx)" arbitrary: count gidx rule: less_induct)
  case less
  show ?case
  proof (cases "gidx < tot")
    case False
    then show ?thesis by (subst cases_for_offset_loop.simps) simp
  next
    case True
    have lt: "nat (tot - (gidx + stride)) < nat (tot - gidx)"
      using True s by linarith
    have step: "cases_for_offset_loop count gidx stride tot =
        cases_for_offset_loop (count + 1) (gidx + stride) stride tot"
      using True by (subst cases_for_offset_loop.simps) simp
    have ih: "cases_for_offset_loop (count + 1) (gidx + stride) stride tot =
        Some (count + 1 + (if gidx + stride < tot
                           then (tot - (gidx + stride) + stride - 1) div stride else 0))"
      using less.hyps [OF lt s] .
    have nz: "stride \<noteq> 0" using s by simp
    have "(tot - gidx + stride - 1) div stride = ((tot - gidx - 1) + 1 * stride) div stride"
      by (rule arg_cong [where f = "\<lambda>x. x div stride"]) simp
    also have "\<dots> = 1 + (tot - gidx - 1) div stride"
      using nz by (rule div_mult_self1)
    finally have A: "(tot - gidx + stride - 1) div stride = 1 + (tot - gidx - 1) div stride" .
    have B: "(tot - (gidx + stride) + stride - 1) div stride = (tot - gidx - 1) div stride"
      by (rule arg_cong [where f = "\<lambda>x. x div stride"]) simp
    have arith: "1 + (if gidx + stride < tot
                      then (tot - (gidx + stride) + stride - 1) div stride else 0)
        = (tot - gidx + stride - 1) div stride"
    proof (cases "gidx + stride < tot")
      case True
      then show ?thesis by (simp only: A B if_True)
    next
      case False
      have "0 \<le> tot - gidx - 1" and "tot - gidx - 1 < stride"
        using \<open>gidx < tot\<close> False by simp_all
      then have "(tot - gidx - 1) div stride = 0" by simp
      then show ?thesis using False by (simp add: A)
    qed
    show ?thesis using step ih arith True by simp
  qed
qed

lemma cases_for_offset_returns:
  "1 \<le> stride \<Longrightarrow> cases_for_offset offset stride tot = Some (cases_for_offset_div offset stride tot)"
  by (simp add: cases_for_offset_def cases_for_offset_div_def cases_for_offset_loop_returns)

lemma cases_for_offset_div_flat:
  assumes "1 \<le> stride" "0 \<le> offset" "offset < stride" "0 \<le> tot"
  shows "cases_for_offset_div offset stride tot = (tot - offset + stride - 1) div stride"
proof (cases "offset < tot")
  case True then show ?thesis by (simp add: cases_for_offset_div_def)
next
  case False
  have "0 \<le> tot - offset + stride - 1" "tot - offset + stride - 1 < stride"
    using assms False by simp_all
  then have "(tot - offset + stride - 1) div stride = 0" by simp
  then show ?thesis using False by (simp add: cases_for_offset_div_def)
qed

lemma div_succ:
  fixes b :: int
  assumes b: "1 \<le> b"
  shows "(x + 1) div b = x div b + (if (x + 1) mod b = 0 then 1 else 0)"
proof -
  define q where "q = x div b"
  define r where "r = x mod b"
  have x: "x = r + q * b" by (simp add: q_def r_def)
  have r0: "0 \<le> r" and r1: "r < b" using b by (simp_all add: r_def)
  show ?thesis
  proof (cases "r + 1 < b")
    case True
    have e: "x + 1 = (r + 1) + q * b" using x by simp
    have d: "(x + 1) div b = q" unfolding e by (rule div_shift) (use b r0 True in simp_all)
    have "(x + 1) mod b = r + 1" unfolding e using r0 True by simp
    then have "(x + 1) mod b \<noteq> 0" using r0 by simp
    then show ?thesis using d by (simp add: q_def)
  next
    case False
    then have rb: "r + 1 = b" using r1 by simp
    have e: "x + 1 = 0 + (q + 1) * b" using x rb by (simp add: algebra_simps)
    have d: "(x + 1) div b = q + 1" unfolding e by (rule div_shift) (use b in simp_all)
    have "(x + 1) mod b = 0" unfolding e by simp
    then show ?thesis using d by (simp add: q_def)
  qed
qed

lemma cases_for_offset_div_step:
  assumes "1 \<le> stride" "0 \<le> offset" "offset < stride" "0 \<le> tot"
  shows "cases_for_offset_div offset stride (tot + 1) =
     cases_for_offset_div offset stride tot + (if tot mod stride = offset then 1 else 0)"
proof -
  have m: "((tot - offset + stride - 1) + 1) mod stride = 0 \<longleftrightarrow> tot mod stride = offset"
  proof -
    have "((tot - offset + stride - 1) + 1) mod stride = ((tot - offset) + stride) mod stride"
      by (rule arg_cong [where f = "\<lambda>x. x mod stride"]) simp
    also have "\<dots> = (tot - offset) mod stride" by (rule mod_add_self2)
    finally have "((tot - offset + stride - 1) + 1) mod stride = (tot - offset) mod stride" .
    moreover have "(tot - offset) mod stride = 0 \<longleftrightarrow> tot mod stride = offset mod stride"
      by (simp add: mod_eq_dvd_iff dvd_eq_mod_eq_0)
    moreover have "offset mod stride = offset" using assms by simp
    ultimately show ?thesis by simp
  qed
  have "cases_for_offset_div offset stride (tot + 1) = ((tot - offset + stride - 1) + 1) div stride"
    using cases_for_offset_div_flat [of stride offset "tot + 1"] assms by (simp add: algebra_simps)
  also have "\<dots> = (tot - offset + stride - 1) div stride + (if tot mod stride = offset then 1 else 0)"
    using div_succ [OF assms(1), of "tot - offset + stride - 1"] m by simp
  finally show ?thesis using cases_for_offset_div_flat [OF assms] by simp
qed

lemma cases_for_offset_div_sum_nat:
  assumes s: "1 \<le> stride"
  shows "(\<Sum>offset \<in> {0..<stride}. cases_for_offset_div offset stride (int n)) = int n"
proof (induction n)
  case 0
  show ?case by (simp add: cases_for_offset_div_def)
next
  case (Suc n)
  have "(\<Sum>offset \<in> {0..<stride}. cases_for_offset_div offset stride (int (Suc n)))
      = (\<Sum>offset \<in> {0..<stride}. cases_for_offset_div offset stride (int n)
            + (if int n mod stride = offset then 1 else 0))"
    by (rule sum.cong)
       (use s cases_for_offset_div_step [of stride _ "int n"] in \<open>simp_all add: algebra_simps\<close>)
  also have "\<dots> = int n + (\<Sum>offset \<in> {0..<stride}. if int n mod stride = offset then 1 else 0)"
    using Suc.IH by (simp add: sum.distrib)
  also have "(\<Sum>offset \<in> {0..<stride}. if int n mod stride = offset then 1 else 0) = (1::int)"
    using s by (simp add: sum.delta')
  finally show ?case by simp
qed

lemma cases_for_offset_div_sum_list:
  assumes "1 \<le> stride" and "0 \<le> tot"
  shows "sum_list (map (\<lambda>offset. cases_for_offset_div offset stride tot) [0..stride - 1]) = tot"
proof -
  have "{0..stride - 1} = {0..<stride}" by auto
  then have "sum_list (map (\<lambda>offset. cases_for_offset_div offset stride tot) [0..stride - 1])
      = (\<Sum>offset \<in> {0..<stride}. cases_for_offset_div offset stride tot)"
    by (simp flip: sum_set_upto_conv_sum_list_int)
  also have "\<dots> = tot"
    using cases_for_offset_div_sum_nat [OF assms(1), of "nat tot"] assms(2) by simp
  finally show ?thesis .
qed

lemma those_map_Some:
  "(\<And>x. x \<in> set xs \<Longrightarrow> f x = Some (g x)) \<Longrightarrow> those (map f xs) = Some (map g xs)"
  by (induction xs) simp_all


section \<open>The checkpoint reader, case by case\<close>

text \<open>
  The first element of \<open>split\<close>: with a run being read, it is that run extended up to the
  next whitespace; with none, it is the first run after the leading whitespace.
\<close>

lemma split_acc_run:
  "cur \<noteq> [] \<Longrightarrow>
     \<exists>more. split_acc cur s = (rev cur @ takeWhile (\<lambda>x. \<not> py_isspace x) s) # more"
proof (induction s arbitrary: cur)
  case Nil
  then show ?case by simp
next
  case (Cons c cs)
  show ?case
  proof (cases "py_isspace c")
    case True
    then show ?thesis using Cons.prems by simp
  next
    case False
    have "c # cur \<noteq> []" by simp
    from Cons.IH [OF this] obtain more where
      "split_acc (c # cur) cs = (rev (c # cur) @ takeWhile (\<lambda>x. \<not> py_isspace x) cs) # more" ..
    then show ?thesis using False by simp
  qed
qed

lemma split_acc_start:
  "dropWhile py_isspace s \<noteq> [] \<Longrightarrow>
     \<exists>more. split_acc [] s = takeWhile (\<lambda>x. \<not> py_isspace x) (dropWhile py_isspace s) # more"
proof (induction s)
  case Nil
  then show ?case by simp
next
  case (Cons c cs)
  show ?case
  proof (cases "py_isspace c")
    case True
    then show ?thesis using Cons by simp
  next
    case False
    from split_acc_run [of "[c]" cs] obtain more where
      "split_acc [c] cs = (rev [c] @ takeWhile (\<lambda>x. \<not> py_isspace x) cs) # more" by auto
    then show ?thesis using False by simp
  qed
qed

lemma takeWhile_append_spaces:
  "\<forall>x \<in> set ws. py_isspace x \<Longrightarrow>
     takeWhile (\<lambda>x. \<not> py_isspace x) (xs @ ws) = takeWhile (\<lambda>x. \<not> py_isspace x) xs"
proof (induction xs)
  case Nil
  then show ?case by (cases ws) simp_all
next
  case (Cons x xs)
  then show ?case by simp
qed

lemma strip_decompose:
  "\<exists>ws. dropWhile py_isspace s = strip s @ ws \<and> (\<forall>x \<in> set ws. py_isspace x)"
proof -
  define d where "d = dropWhile py_isspace s"
  have "rev d = takeWhile py_isspace (rev d) @ dropWhile py_isspace (rev d)" by simp
  then have "d = rev (dropWhile py_isspace (rev d)) @ rev (takeWhile py_isspace (rev d))"
    by (metis rev_append rev_rev_ident)
  moreover have "\<forall>x \<in> set (rev (takeWhile py_isspace (rev d))). py_isspace x"
    by (auto dest: set_takeWhileD)
  ultimately show ?thesis unfolding d_def strip_def by blast
qed

lemma strip_empty_iff: "strip s = [] \<longleftrightarrow> (\<forall>x \<in> set s. py_isspace x)"
proof
  assume e: "strip s = []"
  from strip_decompose [of s] obtain ws where
    d: "dropWhile py_isspace s = strip s @ ws" and ws: "\<forall>x \<in> set ws. py_isspace x" by blast
  have "dropWhile py_isspace s = []"
  proof (rule ccontr)
    assume ne: "dropWhile py_isspace s \<noteq> []"
    then have "\<not> py_isspace (hd (dropWhile py_isspace s))" by (rule hd_dropWhile)
    moreover have "hd (dropWhile py_isspace s) \<in> set ws" using ne d e by simp
    ultimately show False using ws by blast
  qed
  then show "\<forall>x \<in> set s. py_isspace x" by (simp only: dropWhile_eq_Nil_conv)
next
  assume "\<forall>x \<in> set s. py_isspace x"
  then show "strip s = []" by (auto simp: strip_def dest: set_dropWhileD)
qed

lemma leading_token_None_iff: "leading_token s = None \<longleftrightarrow> (\<forall>x \<in> set s. py_isspace x)"
proof -
  have "leading_token s = None \<longleftrightarrow> dropWhile py_isspace s = []"
    unfolding leading_token_def by (rule list.exhaust [of "dropWhile py_isspace s"]) (simp_all only: list.case option.distinct list.distinct simp_thms)
  then show ?thesis by (simp only: dropWhile_eq_Nil_conv)
qed

lemma leading_token_Some:
  "leading_token s = Some t \<Longrightarrow> t = takeWhile (\<lambda>x. \<not> py_isspace x) (dropWhile py_isspace s)"
  unfolding leading_token_def by (cases "dropWhile py_isspace s") auto

lemma strip_starts: "strip s \<noteq> [] \<Longrightarrow> dropWhile py_isspace (strip s) = strip s"
proof -
  assume ne: "strip s \<noteq> []"
  from strip_decompose [of s] obtain ws where
    d: "dropWhile py_isspace s = strip s @ ws" by blast
  from ne d have dne: "dropWhile py_isspace s \<noteq> []" by simp
  then have "\<not> py_isspace (hd (dropWhile py_isspace s))" by (rule hd_dropWhile)
  with d ne have "\<not> py_isspace (hd (strip s))" by simp
  with ne show ?thesis by (cases "strip s") simp_all
qed

lemma split_strip:
  assumes t: "leading_token s = Some t"
  shows "\<exists>more. split (strip s) = t # more"
proof -
  have ne: "strip s \<noteq> []"
    using t leading_token_None_iff [of s] strip_empty_iff [of s] by auto
  from strip_decompose [of s] obtain ws where
    d: "dropWhile py_isspace s = strip s @ ws" and ws: "\<forall>x \<in> set ws. py_isspace x" by blast
  have "takeWhile (\<lambda>x. \<not> py_isspace x) (dropWhile py_isspace s)
      = takeWhile (\<lambda>x. \<not> py_isspace x) (strip s)"
    unfolding d using ws by (rule takeWhile_append_spaces)
  then have tok: "t = takeWhile (\<lambda>x. \<not> py_isspace x) (strip s)"
    using leading_token_Some [OF t] by simp
  have "dropWhile py_isspace (strip s) \<noteq> []" using strip_starts [OF ne] ne by simp
  from split_acc_start [OF this] obtain more where
    "split_acc [] (strip s) = takeWhile (\<lambda>x. \<not> py_isspace x) (dropWhile py_isspace (strip s)) # more"
    by blast
  then show ?thesis using tok strip_starts [OF ne] by (simp add: split_def)
qed

lemma parse_state_file_text:
  "parse_state_file (Text s) =
     Inr (case leading_token s of None \<Rightarrow> None | Some t \<Rightarrow> py_int t)"
proof (cases "leading_token s")
  case None
  then have "strip s = []"
    using leading_token_None_iff [of s] strip_empty_iff [of s] by simp
  with None show ?thesis
    by (simp add: parse_state_file_def parse_state_file_try_def)
next
  case (Some t)
  then have ne: "strip s \<noteq> []"
    using leading_token_None_iff [of s] strip_empty_iff [of s] by auto
  from split_strip [OF Some] obtain more where "split (strip s) = t # more" by blast
  with ne Some show ?thesis
    by (simp add: parse_state_file_def parse_state_file_try_def
          split: option.splits)
qed

text \<open>
  Nothing that the read or the parse raises reaches the caller; the one exception that
  does is that of the existence test.
\<close>

lemma parse_state_file_returns:
  "path \<noteq> Inaccessible \<Longrightarrow> \<exists>r. parse_state_file path = Inr r"
proof (cases path)
  case (Text s)
  then show ?thesis by (simp add: parse_state_file_text)
qed (simp_all add: parse_state_file_def parse_state_file_try_def)

lemma parse_state_file_inaccessible: "parse_state_file Inaccessible = Inl OSError"
  by (simp add: parse_state_file_def)

text \<open>A literal without a minus sign denotes a number that is not negative.\<close>

lemma int_digits_nonneg:
  "0 \<le> acc \<Longrightarrow> int_digits after_digit acc cs = Some n \<Longrightarrow> 0 \<le> n"
proof (induction cs arbitrary: after_digit acc)
  case Nil
  then show ?case by (simp split: if_splits)
next
  case (Cons c cs)
  show ?case
  proof (cases "py_isdecimal c")
    case True
    then have "0 \<le> digit_value c" by (simp add: py_isdecimal_def digit_value_def Let_def)
    with Cons.prems(1) have "0 \<le> acc * 10 + digit_value c" by simp
    moreover have "int_digits True (acc * 10 + digit_value c) cs = Some n"
      using Cons.prems(2) True by simp
    ultimately show ?thesis by (rule Cons.IH)
  next
    case False
    with Cons.prems(2) have "int_digits False acc cs = Some n"
      by (simp split: if_splits)
    with Cons.prems(1) show ?thesis by (rule Cons.IH)
  qed
qed

lemma py_int_nonneg:
  assumes "py_int t = Some n" and "CHR ''-'' \<notin> set t"
  shows "0 \<le> n"
proof -
  define u where "u = rev (dropWhile int_isspace (rev (dropWhile int_isspace t)))"
  have sub: "set u \<subseteq> set t"
  proof
    fix x
    assume "x \<in> set u"
    then have "x \<in> set (dropWhile int_isspace (rev (dropWhile int_isspace t)))"
      by (simp add: u_def)
    then have "x \<in> set (rev (dropWhile int_isspace t))" by (rule set_dropWhileD)
    then have "x \<in> set (dropWhile int_isspace t)" by simp
    then show "x \<in> set t" by (rule set_dropWhileD)
  qed
  have p: "py_int t =
      (case u of
         [] \<Rightarrow> None
       | c # cs \<Rightarrow>
           if c = CHR ''-'' then map_option uminus (int_digits False 0 cs)
           else if c = CHR ''+'' then int_digits False 0 cs
           else int_digits False 0 (c # cs))"
    unfolding py_int_def u_def by (rule refl)
  show ?thesis
  proof (cases u)
    case Nil
    have "py_int t = None" unfolding p Nil by (simp only: list.case)
    with assms(1) show ?thesis by simp
  next
    case (Cons c cs)
    with sub assms(2) have c: "c \<noteq> CHR ''-''" by auto
    have "py_int t = (if c = CHR ''+'' then int_digits False 0 cs
                      else int_digits False 0 (c # cs))"
      unfolding p Cons using c by (simp only: list.case if_False)
    with assms(1) have "int_digits False 0 cs = Some n \<or> int_digits False 0 (c # cs) = Some n"
      by (simp only: split: if_splits) auto
    then show ?thesis
    proof
      assume "int_digits False 0 cs = Some n"
      with int_digits_nonneg [of 0 False cs n] show ?thesis by simp
    next
      assume "int_digits False 0 (c # cs) = Some n"
      with int_digits_nonneg [of 0 False "c # cs" n] show ?thesis by blast
    qed
  qed
qed

lemma leading_token_subset: "leading_token s = Some t \<Longrightarrow> set t \<subseteq> set s"
proof -
  assume "leading_token s = Some t"
  then have "t = takeWhile (\<lambda>x. \<not> py_isspace x) (dropWhile py_isspace s)"
    by (rule leading_token_Some)
  then show ?thesis by (auto dest: set_takeWhileD set_dropWhileD)
qed

section \<open>The loop of the aggregator\<close>

lemma analyze_offset_Inr:
  assumes "analyze_offset e jobset g rank stride tot n offset = Some (Inr w)"
  shows "w_offset w = offset"
    and "parse_state_file (state_file e g rank stride offset) = Inr (w_last_gidx w)"
    and "cases_for_offset offset stride tot = Some (w_cases_total w)"
    and "cases_done_for_offset (w_last_gidx w) offset stride = Inr (w_cases_done w)"
    and "w_status w =
          (if w_cases_done w \<ge> w_cases_total w \<and> w_cases_total w > 0 then ''completed''
           else if w_cases_done w = 0 \<and> w_last_gidx w = None then ''not_started''
           else ''running'')"
  using assms
  by (auto simp: analyze_offset_def Let_def split: sum.splits option.splits)

lemma cases_done_for_offset_returns:
  "stride \<noteq> 0 \<Longrightarrow> \<exists>d. cases_done_for_offset r offset stride = Inr d"
  by (simp add: cases_done_for_offset_def split: option.splits)

lemma log_tail_returns: "path \<noteq> Inaccessible \<Longrightarrow> \<exists>r. log_tail path n = Inr r"
  by (cases path) (simp_all add: log_tail_def split: option.splits)

lemma log_tail_inaccessible: "log_tail Inaccessible n = Inl OSError"
  by (simp add: log_tail_def)

lemma parse_log_times_returns:
  "path \<noteq> Inaccessible \<Longrightarrow> \<exists>r. parse_log_times e path n = Inr r"
  using log_tail_returns [of path n]
  by (auto simp: parse_log_times_def split: option.splits)

lemma get_last_activity_returns:
  "path \<noteq> Inaccessible \<Longrightarrow> \<exists>r. get_last_activity e path n = Inr r"
  using log_tail_returns [of path n]
  by (auto simp: get_last_activity_def split: option.splits)

text \<open>
  One offset is analysed without an exception when the stride is positive and the tests
  of its two paths do not raise.
\<close>

lemma analyze_offset_returns:
  assumes "1 \<le> stride"
    and "state_file e g rank stride offset \<noteq> Inaccessible"
    and "log_file e jobset offset \<noteq> Inaccessible"
  shows "\<exists>w. analyze_offset e jobset g rank stride tot n offset = Some (Inr w)"
proof -
  obtain r where r: "parse_state_file (state_file e g rank stride offset) = Inr r"
    using parse_state_file_returns [OF assms(2)] by blast
  obtain d where d: "cases_done_for_offset r offset stride = Inr d"
    using cases_done_for_offset_returns [of stride r offset] assms(1) by auto
  obtain ts where ts: "parse_log_times e (log_file e jobset offset) n = Inr ts"
    using parse_log_times_returns [OF assms(3)] by blast
  obtain la where la: "get_last_activity e (log_file e jobset offset) n = Inr la"
    using get_last_activity_returns [OF assms(3)] by blast
  show ?thesis
    using r d ts la cases_for_offset_returns [OF assms(1), of offset tot]
    by (simp add: analyze_offset_def Let_def)
qed

lemma analyze_offsets_Inr:
  "analyze_offsets e n offsets p = Some (Inr p') \<Longrightarrow>
     \<exists>ws. p' = p\<lparr>jp_workers := jp_workers p @ ws\<rparr> \<and>
       list_all2 (\<lambda>offset w.
           analyze_offset e (jp_jobset p) (sanitize_for_filename (jp_graph p)) (jp_rank p)
             (jp_stride p) (jp_total_cases p) n offset = Some (Inr w)) offsets ws"
proof (induction offsets arbitrary: p)
  case Nil
  then show ?case by simp
next
  case (Cons offset offsets)
  from Cons.prems obtain w where
    w: "analyze_offset e (jp_jobset p) (sanitize_for_filename (jp_graph p)) (jp_rank p)
          (jp_stride p) (jp_total_cases p) n offset = Some (Inr w)"
    and rec: "analyze_offsets e n offsets (p\<lparr>jp_workers := jp_workers p @ [w]\<rparr>) = Some (Inr p')"
    by (auto split: option.splits sum.splits)
  from Cons.IH [OF rec] obtain ws where
    p': "p' = p\<lparr>jp_workers := jp_workers p @ [w]\<rparr>\<lparr>jp_workers :=
            jp_workers (p\<lparr>jp_workers := jp_workers p @ [w]\<rparr>) @ ws\<rparr>"
    and all: "list_all2 (\<lambda>offset w.
           analyze_offset e (jp_jobset p) (sanitize_for_filename (jp_graph p)) (jp_rank p)
             (jp_stride p) (jp_total_cases p) n offset = Some (Inr w)) offsets ws"
    by auto
  have "p' = p\<lparr>jp_workers := jp_workers p @ (w # ws)\<rparr>" using p' by simp
  moreover have "list_all2 (\<lambda>offset w.
           analyze_offset e (jp_jobset p) (sanitize_for_filename (jp_graph p)) (jp_rank p)
             (jp_stride p) (jp_total_cases p) n offset = Some (Inr w)) (offset # offsets) (w # ws)"
    using w all by simp
  ultimately show ?case by blast
qed

lemma analyze_offsets_returns:
  assumes "\<forall>offset \<in> set offsets.
      1 \<le> jp_stride p
      \<and> state_file e (sanitize_for_filename (jp_graph p)) (jp_rank p) (jp_stride p) offset
          \<noteq> Inaccessible
      \<and> log_file e (jp_jobset p) offset \<noteq> Inaccessible"
  shows "\<exists>p'. analyze_offsets e n offsets p = Some (Inr p')"
  using assms
proof (induction offsets arbitrary: p)
  case Nil
  show ?case by simp
next
  case (Cons offset offsets)
  have "\<exists>w. analyze_offset e (jp_jobset p) (sanitize_for_filename (jp_graph p)) (jp_rank p)
          (jp_stride p) (jp_total_cases p) n offset = Some (Inr w)"
    by (rule analyze_offset_returns) (use Cons.prems in simp_all)
  then obtain w where
    w: "analyze_offset e (jp_jobset p) (sanitize_for_filename (jp_graph p)) (jp_rank p)
          (jp_stride p) (jp_total_cases p) n offset = Some (Inr w)" by blast
  define q where "q = p\<lparr>jp_workers := jp_workers p @ [w]\<rparr>"
  have "\<forall>offset \<in> set offsets.
      1 \<le> jp_stride q
      \<and> state_file e (sanitize_for_filename (jp_graph q)) (jp_rank q) (jp_stride q) offset
          \<noteq> Inaccessible
      \<and> log_file e (jp_jobset q) offset \<noteq> Inaccessible"
    using Cons.prems by (simp add: q_def)
  from Cons.IH [OF this] show ?case using w by (simp add: q_def)
qed



lemma list_all2_sum_le:
  fixes f :: "'b \<Rightarrow> int"
  shows "list_all2 (\<lambda>x y. f y \<le> g x) xs ys \<Longrightarrow> sum_list (map f ys) \<le> sum_list (map g xs)"
  by (induction rule: list_all2_induct) auto

lemma analyze_job_Inr:
  assumes "analyze_job e jobset graph rank n_vertices stride n = Some (Inr progress)"
  shows "math_comb (n_vertices - 1) (n_vertices - 1 - rank) = Inr (jp_total_cases progress)"
    and "list_all2 (\<lambda>offset w.
           analyze_offset e jobset (sanitize_for_filename graph) rank stride
             (jp_total_cases progress) n offset = Some (Inr w))
          [0..stride - 1] (jp_workers progress)"
proof -
  from assms obtain tot where
    tot: "math_comb (n_vertices - 1) (n_vertices - 1 - rank) = Inr tot"
    and run: "analyze_offsets e n [0..stride - 1]
        \<lparr>jp_jobset = jobset, jp_graph = graph, jp_rank = rank, jp_n_vertices = n_vertices,
         jp_dim = n_vertices - 1, jp_kdim = n_vertices - 1 - rank, jp_total_cases = tot,
         jp_stride = stride, jp_workers = []\<rparr> = Some (Inr progress)"
    by (auto simp: analyze_job_def Let_def split: sum.splits)
  from analyze_offsets_Inr [OF run] obtain ws where
    p: "progress = \<lparr>jp_jobset = jobset, jp_graph = graph, jp_rank = rank,
         jp_n_vertices = n_vertices, jp_dim = n_vertices - 1, jp_kdim = n_vertices - 1 - rank,
         jp_total_cases = tot, jp_stride = stride, jp_workers = ws\<rparr>"
    and all: "list_all2 (\<lambda>offset w.
           analyze_offset e jobset (sanitize_for_filename graph) rank stride tot n offset
             = Some (Inr w)) [0..stride - 1] ws"
    by auto
  show "math_comb (n_vertices - 1) (n_vertices - 1 - rank) = Inr (jp_total_cases progress)"
    using tot p by simp
  show "list_all2 (\<lambda>offset w.
           analyze_offset e jobset (sanitize_for_filename graph) rank stride
             (jp_total_cases progress) n offset = Some (Inr w))
          [0..stride - 1] (jp_workers progress)"
    using all p by simp
qed

text \<open>
  The whole call returns a snapshot when the two arguments of the binomial coefficient
  are not negative and no test of a path of an offset raises. No condition on the stride
  is needed: a stride below 1 gives no offset.
\<close>

lemma analyze_job_returns:
  assumes "0 \<le> n_vertices - 1" and "0 \<le> n_vertices - 1 - rank"
    and "\<forall>offset \<in> {0..<stride}.
           state_file e (sanitize_for_filename graph) rank stride offset \<noteq> Inaccessible
           \<and> log_file e jobset offset \<noteq> Inaccessible"
  shows "\<exists>progress. analyze_job e jobset graph rank n_vertices stride n = Some (Inr progress)"
proof -
  have "math_comb (n_vertices - 1) (n_vertices - 1 - rank)
      = Inr (int (nat (n_vertices - 1) choose nat (n_vertices - 1 - rank)))"
    using assms by (simp add: math_comb_def)
  moreover have "\<exists>p'. analyze_offsets e n [0..stride - 1]
        \<lparr>jp_jobset = jobset, jp_graph = graph, jp_rank = rank, jp_n_vertices = n_vertices,
         jp_dim = n_vertices - 1, jp_kdim = n_vertices - 1 - rank,
         jp_total_cases = int (nat (n_vertices - 1) choose nat (n_vertices - 1 - rank)),
         jp_stride = stride, jp_workers = []\<rparr> = Some (Inr p')"
    by (rule analyze_offsets_returns) (use assms(3) in auto)
  ultimately show ?thesis
    by (simp add: analyze_job_def Let_def)
qed

text \<open>A checkpoint below the total leaves the done count within the offset's share.\<close>

lemma cases_done_le_total:
  assumes s: "1 \<le> stride"
    and below: "\<And>g. r = Some g \<Longrightarrow> g < tot"
    and d: "cases_done_for_offset r offset stride = Inr d"
  shows "d \<le> cases_for_offset_div offset stride tot"
proof -
  have nonneg: "0 \<le> cases_for_offset_div offset stride tot"
    using s by (simp add: cases_for_offset_div_def pos_imp_zdiv_nonneg_iff)
  show ?thesis
  proof (cases r)
    case None
    with d nonneg show ?thesis by (simp add: cases_done_for_offset_def)
  next
    case (Some g)
    show ?thesis
    proof (cases "g < offset \<or> (g - offset) mod stride \<noteq> 0")
      case True
      with d Some s nonneg show ?thesis
        by (auto simp: cases_done_for_offset_def split: if_splits)
    next
      case False
      then have ge: "offset \<le> g" by simp
      have dv: "d = (g - offset) div stride + 1"
        using d Some s False by (auto simp: cases_done_for_offset_def split: if_splits)
      have lt: "g < tot" using below Some by simp
      have nz: "stride \<noteq> 0" using s by simp
      have "(g - offset) div stride + 1 = ((g - offset) + 1 * stride) div stride"
        using div_mult_self1 [OF nz, of "g - offset" 1] by simp
      also have "\<dots> \<le> (tot - offset + stride - 1) div stride"
        by (rule zdiv_mono1) (use lt s in simp_all)
      also have "\<dots> = cases_for_offset_div offset stride tot"
        using ge lt by (simp add: cases_for_offset_div_def)
      finally show ?thesis using dv by simp
    qed
  qed
qed

section \<open>The example runs, evaluated\<close>

lemma spec_example_run:
  "analyze_job spec_example_env ''shri_r3'' ''shrikhande'' 3 16 4 2000
     = Some (Inr spec_example_progress)"
  unfolding spec_example_env_def spec_example_progress_def by code_simp

lemma overflow_run:
  "analyze_job overflow_env ''shri_r3'' ''shrikhande'' 3 16 4 2000
     = Some (Inr overflow_progress)"
  unfolding overflow_env_def overflow_progress_def by code_simp

text \<open>
  With a state directory that may not be searched, the exception of the existence test
  leaves \<open>parse_state_file\<close> and \<open>analyze_job\<close>.
\<close>

lemma locked_run:
  "analyze_job locked_env ''shri_r3'' ''shrikhande'' 3 16 4 2000 = Some (Inl OSError)"
  unfolding locked_env_def by code_simp

section \<open>The attribution pass\<close>

text \<open>The body of the line loop, by the three line shapes taken in the order of the code.\<close>

lemma attribute_line_cases:
  "attribute_line line b =
     (case worker_start_id line of
        Some wid \<Rightarrow> b\<lparr>current_wid := wid\<rparr>
      | None \<Rightarrow>
          (case completion_gidx line of
             Some None \<Rightarrow> b
           | Some (Some gidx) \<Rightarrow> record_gidx gidx b
           | None \<Rightarrow> if worker_end line then b\<lparr>current_wid := None\<rparr> else b))"
  by (simp add: attribute_line_def worker_start_id_def completion_gidx_def worker_end_def
        split: option.splits)

lemma attribute_line_progress: "b_progress (attribute_line line b) = b_progress b"
  by (simp add: attribute_line_def record_gidx_def Let_def split: option.splits)

lemma fold_attribute_line_progress:
  "b_progress (fold attribute_line lines b) = b_progress b"
  by (induction lines arbitrary: b) (simp_all add: attribute_line_progress)

lemma scan_worker_log_progress: "b_progress (scan_worker_log e n w b) = b_progress b"
  by (simp add: scan_worker_log_def fold_attribute_line_progress
        split: sum.splits option.splits)

lemma scan_workers_progress: "b_progress (scan_workers e n ws b) = b_progress b"
  by (induction ws arbitrary: b) (simp_all add: scan_worker_log_progress Let_def)

text \<open>The line loop raises nothing; the pass raises only at the test of a log's path.\<close>

lemma attribute_line_raised: "raised (attribute_line line b) = raised b"
  by (simp add: attribute_line_def record_gidx_def Let_def split: option.splits)

lemma fold_attribute_line_raised: "raised (fold attribute_line lines b) = raised b"
  by (induction lines arbitrary: b) (simp_all add: attribute_line_raised)

lemma scan_worker_log_no_raise:
  assumes "raised b = None"
    and "log_file e (jp_jobset (b_progress b)) (w_offset w) \<noteq> Inaccessible"
  shows "raised (scan_worker_log e n w b) = None"
proof -
  from log_tail_returns [OF assms(2)] obtain r where
    "log_tail (log_file e (jp_jobset (b_progress b)) (w_offset w)) n = Inr r" by blast
  with assms(1) show ?thesis
    by (simp add: scan_worker_log_def fold_attribute_line_raised split: option.splits)
qed

lemma scan_workers_no_raise:
  assumes "raised b = None"
    and "\<forall>w \<in> set ws. log_file e (jp_jobset (b_progress b)) (w_offset w) \<noteq> Inaccessible"
  shows "raised (scan_workers e n ws b) = None"
  using assms
proof (induction ws arbitrary: b)
  case Nil
  then show ?case by simp
next
  case (Cons w ws)
  have r: "raised (scan_worker_log e n w b) = None"
    by (rule scan_worker_log_no_raise) (use Cons.prems in simp_all)
  have "\<forall>v \<in> set ws.
      log_file e (jp_jobset (b_progress (scan_worker_log e n w b))) (w_offset v) \<noteq> Inaccessible"
    using Cons.prems(2) by (simp add: scan_worker_log_progress)
  from Cons.IH [OF r this] show ?case using r by (simp add: Let_def)
qed

text \<open>The set of all indices is the union of the sets of the dictionary, at every step.\<close>

lemma record_gidx_union:
  assumes "all_gidx b = \<Union> (ran (per_worker b))"
  shows "all_gidx (record_gidx gidx b) = \<Union> (ran (per_worker (record_gidx gidx b)))"
proof -
  define wid where "wid = (case current_wid b of Some w \<Rightarrow> w | None \<Rightarrow> 0)"
  define old where "old = (case per_worker b wid of None \<Rightarrow> {} | Some g \<Rightarrow> g)"
  have pw: "per_worker (record_gidx gidx b) = (per_worker b)(wid \<mapsto> insert gidx old)"
    and ag: "all_gidx (record_gidx gidx b) = insert gidx (all_gidx b)"
    by (simp_all add: record_gidx_def wid_def old_def Let_def)
  have "\<Union> (ran ((per_worker b)(wid \<mapsto> insert gidx old))) = insert gidx (\<Union> (ran (per_worker b)))"
  proof (rule set_eqI)
    fix x
    show "x \<in> \<Union> (ran ((per_worker b)(wid \<mapsto> insert gidx old)))
        \<longleftrightarrow> x \<in> insert gidx (\<Union> (ran (per_worker b)))"
    proof
      assume "x \<in> \<Union> (ran ((per_worker b)(wid \<mapsto> insert gidx old)))"
      then obtain k s where ks: "((per_worker b)(wid \<mapsto> insert gidx old)) k = Some s" "x \<in> s"
        by (auto simp: ran_def)
      show "x \<in> insert gidx (\<Union> (ran (per_worker b)))"
      proof (cases "k = wid")
        case True
        with ks have "x = gidx \<or> x \<in> old" by auto
        then show ?thesis
          by (auto simp: old_def ran_def split: option.splits)
      next
        case False
        with ks show ?thesis by (auto simp: ran_def)
      qed
    next
      assume "x \<in> insert gidx (\<Union> (ran (per_worker b)))"
      then consider "x = gidx" | k s where "per_worker b k = Some s" "x \<in> s"
        by (auto simp: ran_def)
      then show "x \<in> \<Union> (ran ((per_worker b)(wid \<mapsto> insert gidx old)))"
      proof cases
        case 1
        have "((per_worker b)(wid \<mapsto> insert gidx old)) wid = Some (insert gidx old)" by simp
        then show ?thesis using 1 unfolding ran_def by blast
      next
        case 2
        show ?thesis
        proof (cases "k = wid")
          case True
          with 2 have "x \<in> old" by (simp add: old_def)
          moreover have "((per_worker b)(wid \<mapsto> insert gidx old)) wid = Some (insert gidx old)"
            by simp
          ultimately show ?thesis unfolding ran_def by blast
        next
          case False
          with 2 have "((per_worker b)(wid \<mapsto> insert gidx old)) k = Some s" by simp
          with 2 show ?thesis unfolding ran_def by blast
        qed
      qed
    qed
  qed
  with assms pw ag show ?thesis by simp
qed

lemma attribute_line_union:
  "all_gidx b = \<Union> (ran (per_worker b)) \<Longrightarrow>
     all_gidx (attribute_line line b) = \<Union> (ran (per_worker (attribute_line line b)))"
  by (simp add: attribute_line_cases record_gidx_union split: option.splits)

lemma fold_attribute_line_union:
  "all_gidx b = \<Union> (ran (per_worker b)) \<Longrightarrow>
     all_gidx (fold attribute_line lines b) = \<Union> (ran (per_worker (fold attribute_line lines b)))"
  by (induction lines arbitrary: b) (simp_all add: attribute_line_union)

lemma scan_worker_log_union:
  "all_gidx b = \<Union> (ran (per_worker b)) \<Longrightarrow>
     all_gidx (scan_worker_log e n w b) = \<Union> (ran (per_worker (scan_worker_log e n w b)))"
  by (simp add: scan_worker_log_def fold_attribute_line_union split: sum.splits option.splits)

lemma scan_workers_union:
  "all_gidx b = \<Union> (ran (per_worker b)) \<Longrightarrow>
     all_gidx (scan_workers e n ws b) = \<Union> (ran (per_worker (scan_workers e n ws b)))"
  by (induction ws arbitrary: b) (simp_all add: scan_worker_log_union Let_def)

lemma breakdown_run_union:
  "all_gidx (breakdown_run e progress n) = \<Union> (ran (per_worker (breakdown_run e progress n)))"
  unfolding breakdown_run_def
  by (rule scan_workers_union) (simp add: breakdown_init_def)

text \<open>The set of all indices only grows, and a completion event puts its index into it.\<close>

lemma attribute_line_grows: "all_gidx b \<subseteq> all_gidx (attribute_line line b)"
  by (auto simp: attribute_line_cases record_gidx_def Let_def split: option.splits)

lemma fold_attribute_line_grows: "all_gidx b \<subseteq> all_gidx (fold attribute_line lines b)"
proof (induction lines arbitrary: b)
  case Nil
  show ?case by simp
next
  case (Cons line lines)
  have "all_gidx b \<subseteq> all_gidx (attribute_line line b)" by (rule attribute_line_grows)
  also have "\<dots> \<subseteq> all_gidx (fold attribute_line lines (attribute_line line b))"
    by (rule Cons.IH)
  finally show ?case by simp
qed

lemma scan_worker_log_grows: "all_gidx b \<subseteq> all_gidx (scan_worker_log e n w b)"
proof (cases "log_tail (log_file e (jp_jobset (b_progress b)) (w_offset w)) n")
  case (Inl err)
  then show ?thesis by (simp add: scan_worker_log_def)
next
  case (Inr r)
  show ?thesis
  proof (cases r)
    case None
    with Inr show ?thesis by (simp add: scan_worker_log_def)
  next
    case (Some lines)
    have "all_gidx (b\<lparr>current_wid := None\<rparr>)
        \<subseteq> all_gidx (fold attribute_line lines (b\<lparr>current_wid := None\<rparr>))"
      by (rule fold_attribute_line_grows)
    with Inr Some show ?thesis by (simp add: scan_worker_log_def)
  qed
qed

lemma scan_workers_grows: "all_gidx b \<subseteq> all_gidx (scan_workers e n ws b)"
proof (induction ws arbitrary: b)
  case Nil
  show ?case by simp
next
  case (Cons w ws)
  have "all_gidx b \<subseteq> all_gidx (scan_worker_log e n w b)" by (rule scan_worker_log_grows)
  moreover have "all_gidx (scan_worker_log e n w b)
      \<subseteq> all_gidx (scan_workers e n ws (scan_worker_log e n w b))"
    by (rule Cons.IH)
  ultimately show ?case by (auto simp: Let_def)
qed

lemma attribute_line_records:
  "worker_start_id line = None \<Longrightarrow> completion_gidx line = Some (Some gidx) \<Longrightarrow>
     gidx \<in> all_gidx (attribute_line line b)"
  by (simp add: attribute_line_cases record_gidx_def Let_def)

lemma fold_attribute_line_records:
  assumes "line \<in> set lines"
    and "worker_start_id line = None" and "completion_gidx line = Some (Some gidx)"
  shows "gidx \<in> all_gidx (fold attribute_line lines b)"
  using assms(1)
proof (induction lines arbitrary: b)
  case Nil
  then show ?case by simp
next
  case (Cons l lines)
  show ?case
  proof (cases "line = l")
    case True
    have "gidx \<in> all_gidx (attribute_line l b)"
      unfolding True [symmetric] using assms(2,3) by (rule attribute_line_records)
    then show ?thesis using fold_attribute_line_grows [of "attribute_line l b" lines] by auto
  next
    case False
    with Cons.prems have "line \<in> set lines" by simp
    from Cons.IH [OF this] show ?thesis by simp
  qed
qed

lemma scan_workers_records:
  assumes "raised (scan_workers e n ws b) = None"
    and "w \<in> set ws"
    and "log_tail (log_file e (jp_jobset (b_progress b)) (w_offset w)) n = Inr (Some lines)"
    and "line \<in> set lines"
    and "worker_start_id line = None" and "completion_gidx line = Some (Some gidx)"
  shows "gidx \<in> all_gidx (scan_workers e n ws b)"
  using assms(1,2,3)
proof (induction ws arbitrary: b)
  case Nil
  then show ?case by simp
next
  case (Cons v ws)
  define b' where "b' = scan_worker_log e n v b"
  have nr: "raised b' = None"
  proof (rule ccontr)
    assume "raised b' \<noteq> None"
    then have "scan_workers e n (v # ws) b = b'" by (simp add: b'_def Let_def)
    with Cons.prems(1) \<open>raised b' \<noteq> None\<close> show False by simp
  qed
  then have step: "scan_workers e n (v # ws) b = scan_workers e n ws b'"
    by (simp add: b'_def Let_def)
  show ?case
  proof (cases "w = v")
    case True
    have "gidx \<in> all_gidx b'"
      using Cons.prems(3) True
        fold_attribute_line_records [OF assms(4,5,6), of "b\<lparr>current_wid := None\<rparr>"]
      by (simp add: b'_def scan_worker_log_def)
    then show ?thesis
      unfolding step using scan_workers_grows [of b' e n ws] by auto
  next
    case False
    with Cons.prems(2) have "w \<in> set ws" by simp
    moreover have "log_tail (log_file e (jp_jobset (b_progress b')) (w_offset w)) n
        = Inr (Some lines)"
      using Cons.prems(3) by (simp add: b'_def scan_worker_log_progress)
    moreover have "raised (scan_workers e n ws b') = None"
      using Cons.prems(1) step by simp
    ultimately show ?thesis unfolding step by (intro Cons.IH)
  qed
qed

section \<open>The example logs, evaluated\<close>

lemma example_log_tail:
  "log_tail (log_file example_log_env (jp_jobset one_offset_progress) (w_offset w0)) 2000
     = Inr (Some example_log)"
  if "w_offset w0 = 0" for w0 :: "(string, string) WorkerState"
proof -
  have "log_tail (Text (unlines example_log)) 2000 = Inr (Some example_log)"
    unfolding example_log_def start_line_def first_event_def second_event_def done_line_def
      third_event_def
    by code_simp
  then show ?thesis using that by (simp add: example_log_env_def)
qed

lemma example_log_shapes:
  "worker_start_id start_line = Some (Some 3)"
  "worker_start_id first_event = None" "completion_gidx first_event = Some (Some 0)"
  "worker_start_id second_event = None" "completion_gidx second_event = Some (Some 1)"
  "worker_start_id done_line = None" "completion_gidx done_line = None" "worker_end done_line"
  "worker_start_id third_event = None" "completion_gidx third_event = Some (Some 2)"
  unfolding start_line_def first_event_def second_event_def done_line_def third_event_def
  by code_simp+

lemma overlap_line_shapes:
  "worker_start_id start_and_done_line = Some (Some 3)"
  "completion_gidx start_and_done_line = Some (Some 5)"
  "worker_start_id end_and_done_line = None"
  "completion_gidx end_and_done_line = Some (Some 5)"
  "worker_end end_and_done_line"
  unfolding start_and_done_line_def end_and_done_line_def by code_simp+

lemma overlap_log_tail:
  "log_tail (log_file overlap_log_env (jp_jobset one_offset_progress) 0) 2000
     = Inr (Some [start_and_done_line])"
proof -
  have "log_tail (Text (unlines [start_and_done_line])) 2000
      = Inr (Some [start_and_done_line])"
    unfolding start_and_done_line_def by code_simp
  then show ?thesis by (simp add: overlap_log_env_def)
qed

lemma example_log_run:
  "worker_case_breakdown_from_logs example_log_env one_offset_progress 2000
       = Inr ([3 \<mapsto> {0, 1}, 0 \<mapsto> {2}], {0, 1, 2})"
proof -
  obtain w0 where w0: "jp_workers one_offset_progress = [w0]" "w_offset w0 = 0"
    by (simp add: one_offset_progress_def)
  have t: "log_tail (log_file example_log_env (jp_jobset one_offset_progress) (w_offset w0)) 2000
     = Inr (Some [start_line, first_event, second_event, done_line, third_event])"
    using example_log_tail [OF w0(2)] by (simp add: example_log_def)
  have sets: "insert (1::int) {0} = {0, 1}" "insert (2::int) {0, 1} = {0, 1, 2}" by auto
  show ?thesis
    using w0(1) t example_log_shapes
    by (simp add: worker_case_breakdown_from_logs_def breakdown_run_def breakdown_init_def
          scan_worker_log_def attribute_line_cases record_gidx_def Let_def sets)
qed

section \<open>Claims\<close>

text \<open>
  C1, as amended. For \<open>dim \<ge> 0\<close>, \<open>kdim \<ge> 0\<close> and \<open>stride \<ge> 1\<close>: if every checkpoint
  that holds an integer holds one below \<open>total_cases\<close>, then in every \<open>JobProgress\<close> that
  \<open>analyze_job\<close> constructs the sum of the done counts of the offsets is at most
  \<open>total_cases\<close>; and \<open>analyze_job\<close> does construct one whenever the existence tests of the
  state files and logs of the offsets do not raise.
\<close>

theorem analyze_job_cases_done_bounded:
  assumes "0 \<le> n_vertices - 1" and "0 \<le> n_vertices - 1 - rank" and s: "1 \<le> stride"
    and tot: "math_comb (n_vertices - 1) (n_vertices - 1 - rank) = Inr total_cases"
    and below: "\<forall>offset \<in> {0..<stride}. \<forall>g.
        parse_state_file (state_file e (sanitize_for_filename graph) rank stride offset)
          = Inr (Some g) \<longrightarrow> g < total_cases"
  shows "((\<forall>offset \<in> {0..<stride}.
             state_file e (sanitize_for_filename graph) rank stride offset \<noteq> Inaccessible
             \<and> log_file e jobset offset \<noteq> Inaccessible)
          \<longrightarrow> (\<exists>progress.
                 analyze_job e jobset graph rank n_vertices stride log_max_lines
                   = Some (Inr progress)))
       \<and> (\<forall>progress.
            analyze_job e jobset graph rank n_vertices stride log_max_lines = Some (Inr progress)
            \<longrightarrow> jp_total_cases progress = total_cases
                \<and> jp_cases_done progress \<le> jp_total_cases progress)"
proof (intro conjI impI allI)
  assume "\<forall>offset \<in> {0..<stride}.
             state_file e (sanitize_for_filename graph) rank stride offset \<noteq> Inaccessible
             \<and> log_file e jobset offset \<noteq> Inaccessible"
  with assms(1,2) show "\<exists>progress.
      analyze_job e jobset graph rank n_vertices stride log_max_lines = Some (Inr progress)"
    by (rule analyze_job_returns)
next
  fix progress
  assume run: "analyze_job e jobset graph rank n_vertices stride log_max_lines
      = Some (Inr progress)"
  show t: "jp_total_cases progress = total_cases"
    using analyze_job_Inr(1) [OF run] tot by simp
  have t0: "0 \<le> total_cases"
    using tot by (auto simp: math_comb_def split: if_splits)
  note all = analyze_job_Inr(2) [OF run]
  have "list_all2 (\<lambda>offset w. w_cases_done w \<le> cases_for_offset_div offset stride total_cases)
          [0..stride - 1] (jp_workers progress)"
    using all
  proof (rule list.rel_mono_strong)
    fix offset w
    assume o: "offset \<in> set [0..stride - 1]"
      and w: "analyze_offset e jobset (sanitize_for_filename graph) rank stride
                (jp_total_cases progress) log_max_lines offset = Some (Inr w)"
    have "offset \<in> {0..<stride}" using o by auto
    with below analyze_offset_Inr(2) [OF w]
    have "\<And>g. w_last_gidx w = Some g \<Longrightarrow> g < total_cases" by auto
    with s show "w_cases_done w \<le> cases_for_offset_div offset stride total_cases"
      using analyze_offset_Inr(4) [OF w] by (rule cases_done_le_total)
  qed
  then have "sum_list (map w_cases_done (jp_workers progress))
      \<le> sum_list (map (\<lambda>offset. cases_for_offset_div offset stride total_cases) [0..stride - 1])"
    by (rule list_all2_sum_le)
  also have "\<dots> = total_cases" using s t0 by (rule cases_for_offset_div_sum_list)
  finally show "jp_cases_done progress \<le> jp_total_cases progress"
    using t by (simp add: jp_cases_done_def)
qed

theorem analyze_job_cases_done_bounded_witness:
  "(0::int) \<le> 16 - 1 \<and> (0::int) \<le> 16 - 1 - 3 \<and> (1::int) \<le> 4
   \<and> math_comb (16 - 1) (16 - 1 - 3) = Inr 455
   \<and> map (state_file spec_example_env (sanitize_for_filename ''shrikhande'') 3 4) [0, 1, 2, 3]
       = [Text ''452'', Missing, Text ''6'', Missing]
   \<and> map (log_file spec_example_env ''shri_r3'') [0, 1, 2, 3]
       = [Missing, Missing, Missing, Missing]
   \<and> map parse_state_file [Text ''452'', Missing, Text ''6'', Missing]
       = [Inr (Some 452), Inr None, Inr (Some 6), Inr None]
   \<and> (452::int) < 455 \<and> (6::int) < 455
   \<and> analyze_job spec_example_env ''shri_r3'' ''shrikhande'' 3 16 4 2000
        = Some (Inr spec_example_progress)
   \<and> jp_cases_done spec_example_progress = 116
   \<and> jp_cases_done spec_example_progress \<le> jp_total_cases spec_example_progress"
proof -
  have c: "math_comb (16 - 1) (16 - 1 - 3) = Inr 455" by code_simp
  have p0: "parse_state_file (Text ''452'') = Inr (Some 452)"
    and p2: "parse_state_file (Text ''6'') = Inr (Some 6)"
    and pm: "parse_state_file Missing = Inr None"
    by code_simp+
  have b: "\<forall>offset \<in> {0..<4}. \<forall>g.
        parse_state_file (state_file spec_example_env (sanitize_for_filename ''shrikhande'') 3 4 offset)
          = Inr (Some g) \<longrightarrow> g < 455"
    using p0 p2 pm by (auto simp: spec_example_env_def)
  have d: "jp_cases_done spec_example_progress = 116"
    by (simp add: jp_cases_done_def spec_example_progress_def)
  from analyze_job_cases_done_bounded [of 16 3 4 455 spec_example_env "''shrikhande''"
      "''shri_r3''" 2000, OF _ _ _ c b]
  have "jp_cases_done spec_example_progress \<le> jp_total_cases spec_example_progress"
    using spec_example_run by simp
  with c d spec_example_run p0 p2 pm show ?thesis by (simp add: spec_example_env_def)
qed

text \<open>
  C1 as it was stated allows any content of the checkpoints; a checkpoint of offset 0
  that holds 4000 gives that offset 1001 done cases, more than the 455 cases of the job.
\<close>

theorem analyze_job_cases_done_exceeds:
  "analyze_job overflow_env ''shri_r3'' ''shrikhande'' 3 16 4 2000 = Some (Inr overflow_progress)
   \<and> jp_cases_done overflow_progress = 1001 \<and> jp_total_cases overflow_progress = 455
   \<and> \<not> jp_cases_done overflow_progress \<le> jp_total_cases overflow_progress"
  using overflow_run by (simp add: jp_cases_done_def overflow_progress_def)

text \<open>
  C2. For an offset \<open>\<ge> 0\<close> and a stride \<open>\<ge> 1\<close>, \<open>cases_done_for_offset\<close> returns 0
  for an absent last index, 0 for a last index below the offset, 0 for a last index
  outside the offset's residue class, and otherwise \<open>(last_index - offset) / stride + 1\<close>;
  in particular the last index \<open>offset + k * stride\<close> gives \<open>k + 1\<close> for every \<open>k \<ge> 0\<close>.
\<close>

theorem cases_done_for_offset_spec:
  assumes "0 \<le> offset" and "1 \<le> stride"
  shows "cases_done_for_offset None offset stride = Inr 0
       \<and> (g < offset \<longrightarrow> cases_done_for_offset (Some g) offset stride = Inr 0)
       \<and> ((g - offset) mod stride \<noteq> 0 \<longrightarrow> cases_done_for_offset (Some g) offset stride = Inr 0)
       \<and> (offset \<le> g \<and> (g - offset) mod stride = 0 \<longrightarrow>
            cases_done_for_offset (Some g) offset stride = Inr ((g - offset) div stride + 1))
       \<and> (0 \<le> k \<longrightarrow> cases_done_for_offset (Some (offset + k * stride)) offset stride = Inr (k + 1))"
proof -
  have nz: "stride \<noteq> 0" using assms by simp
  have pos: "\<not> offset + k * stride < offset" if "0 \<le> k"
  proof -
    have "0 \<le> k * stride" using that assms by (intro mult_nonneg_nonneg) simp_all
    then show ?thesis by simp
  qed
  show ?thesis
    using nz pos by (simp add: cases_done_for_offset_def)
qed

theorem cases_done_for_offset_spec_witness:
  "(0::int) \<le> 2 \<and> (1::int) \<le> 4
   \<and> cases_done_for_offset None 2 4 = Inr 0
   \<and> cases_done_for_offset (Some 1) 2 4 = Inr 0
   \<and> cases_done_for_offset (Some 7) 2 4 = Inr 0
   \<and> cases_done_for_offset (Some 6) 2 4 = Inr 2
   \<and> cases_done_for_offset (Some (2 + 3 * 4)) 2 4 = Inr 4"
  using cases_done_for_offset_spec [of 2 4 1 3]
        cases_done_for_offset_spec [of 2 4 7 3]
        cases_done_for_offset_spec [of 2 4 6 3]
  by simp

text \<open>
  C3, as amended. Whenever the existence test of the path does not itself fail,
  \<open>parse_state_file\<close> raises nothing. It returns \<open>None\<close> for a path that does not exist,
  for a file that cannot be read or decoded, for an empty and for a whitespace-only file,
  and for a file whose leading whitespace-delimited token is not an integer literal. When
  that token is an integer literal it returns the integer that the token denotes, which
  is not negative when the token holds no minus sign.
\<close>

theorem parse_state_file_spec:
  "(path \<noteq> Inaccessible \<longrightarrow> (\<exists>r. parse_state_file path = Inr r))
   \<and> parse_state_file Missing = Inr None
   \<and> parse_state_file Unreadable = Inr None
   \<and> parse_state_file (Undecodable s) = Inr None
   \<and> parse_state_file (Text []) = Inr None
   \<and> ((\<forall>c \<in> set s. py_isspace c) \<longrightarrow> parse_state_file (Text s) = Inr None)
   \<and> (leading_token s = Some t \<and> py_int t = None \<longrightarrow> parse_state_file (Text s) = Inr None)
   \<and> (leading_token s = Some t \<and> py_int t = Some n \<longrightarrow>
        parse_state_file (Text s) = Inr (Some n) \<and> (CHR ''-'' \<notin> set t \<longrightarrow> 0 \<le> n))"
proof -
  have "parse_state_file (Text []) = Inr None"
    by (simp add: parse_state_file_text leading_token_def)
  moreover have "parse_state_file Missing = Inr None"
    and "parse_state_file Unreadable = Inr None"
    and "parse_state_file (Undecodable s) = Inr None"
    by (simp_all add: parse_state_file_def parse_state_file_try_def)
  moreover have "0 \<le> n" if "py_int t = Some n" and "CHR ''-'' \<notin> set t"
    using that by (rule py_int_nonneg)
  ultimately show ?thesis
    using parse_state_file_returns [of path]
    by (auto simp: parse_state_file_text leading_token_None_iff [THEN iffD2])
qed

theorem parse_state_file_spec_witness:
  "Unreadable \<noteq> Inaccessible \<and> parse_state_file Unreadable = Inr None
   \<and> py_isspace (CHR 0x20) \<and> py_isspace (CHR 0x09) \<and> py_isspace (CHR 0x0A)
   \<and> parse_state_file (Text [CHR 0x20, CHR 0x09, CHR 0x0A]) = Inr None
   \<and> leading_token ''x12 7'' = Some ''x12'' \<and> py_int ''x12'' = None
   \<and> parse_state_file (Text ''x12 7'') = Inr None
   \<and> leading_token '' 452 done'' = Some ''452'' \<and> py_int ''452'' = Some 452
   \<and> CHR ''-'' \<notin> set ''452''
   \<and> parse_state_file (Text '' 452 done'') = Inr (Some 452) \<and> (0::int) \<le> 452"
proof -
  have a: "\<forall>c \<in> set [CHR 0x20, CHR 0x09, CHR 0x0A]. py_isspace c"
    by (simp add: py_isspace_def)
  have b: "leading_token ''x12 7'' = Some ''x12''" "py_int ''x12'' = None"
    by (simp_all add: leading_token_def py_isspace_def py_int_def int_isspace_def py_isdecimal_def)
  have c: "leading_token '' 452 done'' = Some ''452''" "py_int ''452'' = Some 452"
    by (simp_all add: leading_token_def py_isspace_def py_int_def int_isspace_def
          py_isdecimal_def digit_value_def)
  have a': "py_isspace (CHR 0x20) \<and> py_isspace (CHR 0x09) \<and> py_isspace (CHR 0x0A)"
    by (simp add: py_isspace_def)
  show ?thesis
    using a a' b c
      parse_state_file_spec [of Unreadable "[CHR 0x20, CHR 0x09, CHR 0x0A]" "''x''" 0]
      parse_state_file_spec [of Unreadable "''x12 7''" "''x12''" 0]
      parse_state_file_spec [of Unreadable "'' 452 done''" "''452''" 452]
    by simp
qed

text \<open>
  C3 as it was stated promises a non-negative result; a checkpoint that reads \<open>-5\<close> has a
  leading token that is an integer literal, and the result is \<open>-5\<close>.
\<close>

theorem parse_state_file_negative:
  "leading_token ''-5'' = Some ''-5'' \<and> py_int ''-5'' = Some (- 5)
   \<and> parse_state_file (Text ''-5'') = Inr (Some (- 5)) \<and> \<not> (0::int) \<le> - 5"
  by (simp add: parse_state_file_text leading_token_def py_isspace_def py_int_def
        int_isspace_def py_isdecimal_def digit_value_def)

text \<open>
  C4, as amended. Replaying one log tail line by line, in the order in which the code
  tests a line: a line that matches the worker-start pattern sets the current worker to
  its id, whatever the state before; a line that does not match the worker-start pattern
  and in which the completion pattern is found is attributed to the current worker when
  one is set and to the identity 0 when none is set, and leaves the current worker as it
  is; a line of neither kind that matches the done/failed pattern clears the current
  worker and leaves the recorded attributions as they are. In particular, for a log that
  consists of a start line of worker 3, two completion events, a done line and one more
  completion event, the first two events are attributed to worker 3 and the last to the
  identity 0.
\<close>

theorem attribute_line_transitions:
  "(worker_start_id line = Some (Some wid) \<longrightarrow>
      attribute_line line b = b\<lparr>current_wid := Some wid\<rparr>)
   \<and> (worker_start_id line = None \<and> completion_gidx line = Some (Some gidx)
        \<and> current_wid b = Some wid \<longrightarrow>
      attribute_line line b =
        b\<lparr>all_gidx := insert gidx (all_gidx b),
          per_worker := (per_worker b)
            (wid \<mapsto> insert gidx (case per_worker b wid of None \<Rightarrow> {} | Some s \<Rightarrow> s))\<rparr>)
   \<and> (worker_start_id line = None \<and> completion_gidx line = Some (Some gidx)
        \<and> current_wid b = None \<longrightarrow>
      attribute_line line b =
        b\<lparr>all_gidx := insert gidx (all_gidx b),
          per_worker := (per_worker b)
            (0 \<mapsto> insert gidx (case per_worker b 0 of None \<Rightarrow> {} | Some s \<Rightarrow> s))\<rparr>)
   \<and> (worker_start_id line = None \<and> completion_gidx line = None \<and> worker_end line \<longrightarrow>
      attribute_line line b = b\<lparr>current_wid := None\<rparr>)
   \<and> (jp_workers progress = [w]
        \<and> log_tail (log_file e (jp_jobset progress) (w_offset w)) log_max_lines
            = Inr (Some [l1, c1, c2, l4, c3])
        \<and> worker_start_id l1 = Some (Some 3)
        \<and> worker_start_id c1 = None \<and> completion_gidx c1 = Some (Some g1)
        \<and> worker_start_id c2 = None \<and> completion_gidx c2 = Some (Some g2)
        \<and> worker_start_id l4 = None \<and> completion_gidx l4 = None \<and> worker_end l4
        \<and> worker_start_id c3 = None \<and> completion_gidx c3 = Some (Some g3) \<longrightarrow>
      worker_case_breakdown_from_logs e progress log_max_lines
        = Inr ([3 \<mapsto> {g1, g2}, 0 \<mapsto> {g3}], {g1, g2, g3}))"
proof (intro conjI impI)
  assume "worker_start_id line = Some (Some wid)"
  then show "attribute_line line b = b\<lparr>current_wid := Some wid\<rparr>"
    by (simp add: attribute_line_cases)
next
  assume "worker_start_id line = None \<and> completion_gidx line = Some (Some gidx)
        \<and> current_wid b = Some wid"
  then show "attribute_line line b =
        b\<lparr>all_gidx := insert gidx (all_gidx b),
          per_worker := (per_worker b)
            (wid \<mapsto> insert gidx (case per_worker b wid of None \<Rightarrow> {} | Some s \<Rightarrow> s))\<rparr>"
    by (simp add: attribute_line_cases record_gidx_def Let_def)
next
  assume "worker_start_id line = None \<and> completion_gidx line = Some (Some gidx)
        \<and> current_wid b = None"
  then show "attribute_line line b =
        b\<lparr>all_gidx := insert gidx (all_gidx b),
          per_worker := (per_worker b)
            (0 \<mapsto> insert gidx (case per_worker b 0 of None \<Rightarrow> {} | Some s \<Rightarrow> s))\<rparr>"
    by (simp add: attribute_line_cases record_gidx_def Let_def)
next
  assume "worker_start_id line = None \<and> completion_gidx line = None \<and> worker_end line"
  then show "attribute_line line b = b\<lparr>current_wid := None\<rparr>"
    by (simp add: attribute_line_cases)
next
  assume a: "jp_workers progress = [w]
        \<and> log_tail (log_file e (jp_jobset progress) (w_offset w)) log_max_lines
            = Inr (Some [l1, c1, c2, l4, c3])
        \<and> worker_start_id l1 = Some (Some 3)
        \<and> worker_start_id c1 = None \<and> completion_gidx c1 = Some (Some g1)
        \<and> worker_start_id c2 = None \<and> completion_gidx c2 = Some (Some g2)
        \<and> worker_start_id l4 = None \<and> completion_gidx l4 = None \<and> worker_end l4
        \<and> worker_start_id c3 = None \<and> completion_gidx c3 = Some (Some g3)"
  have sets: "insert g2 {g1} = {g1, g2}" "insert g3 {g1, g2} = {g1, g2, g3}" by auto
  show "worker_case_breakdown_from_logs e progress log_max_lines
        = Inr ([3 \<mapsto> {g1, g2}, 0 \<mapsto> {g3}], {g1, g2, g3})"
    using a
    by (simp add: worker_case_breakdown_from_logs_def breakdown_run_def breakdown_init_def
          scan_worker_log_def attribute_line_cases record_gidx_def Let_def sets)
qed

theorem attribute_line_transitions_witness:
  "worker_start_id start_line = Some (Some 3)
   \<and> completion_gidx first_event = Some (Some 0)
   \<and> completion_gidx second_event = Some (Some 1)
   \<and> worker_end done_line
   \<and> completion_gidx third_event = Some (Some 2)
   \<and> log_tail (log_file example_log_env (jp_jobset one_offset_progress) 0) 2000
       = Inr (Some [start_line, first_event, second_event, done_line, third_event])
   \<and> worker_case_breakdown_from_logs example_log_env one_offset_progress 2000
       = Inr ([3 \<mapsto> {0, 1}, 0 \<mapsto> {2}], {0, 1, 2})"
proof -
  obtain w0 where w0: "jp_workers one_offset_progress = [w0]" "w_offset w0 = 0"
    by (simp add: one_offset_progress_def)
  have t: "log_tail (log_file example_log_env (jp_jobset one_offset_progress) (w_offset w0)) 2000
     = Inr (Some [start_line, first_event, second_event, done_line, third_event])"
    using example_log_tail [OF w0(2)] by (simp add: example_log_def)
  note s = example_log_shapes
  from attribute_line_transitions [of start_line 3 "breakdown_init one_offset_progress" 0
      one_offset_progress w0 example_log_env 2000 start_line first_event second_event
      done_line third_event 0 1 2]
  have "worker_case_breakdown_from_logs example_log_env one_offset_progress 2000
       = Inr ([3 \<mapsto> {0, 1}, 0 \<mapsto> {2}], {0, 1, 2})"
    using w0(1) t s by blast
  with s t w0(2) show ?thesis by simp
qed

text \<open>
  C4 as it was stated speaks of every completion-event line and every done/failed line.
  The completion pattern is searched for anywhere in a line, so it is also found in a line
  that begins as a worker-start line or as a done line. With worker 7 current, the first
  such line is not attributed to worker 7 but makes worker 3 current, and the second,
  being taken as a completion event, does not clear the current worker.
\<close>

theorem attribute_line_overlap:
  "completion_gidx start_and_done_line = Some (Some 5)
   \<and> per_worker (attribute_line start_and_done_line
        ((breakdown_init one_offset_progress)\<lparr>current_wid := Some 7\<rparr>)) 7 = None
   \<and> all_gidx (attribute_line start_and_done_line
        ((breakdown_init one_offset_progress)\<lparr>current_wid := Some 7\<rparr>)) = {}
   \<and> current_wid (attribute_line start_and_done_line
        ((breakdown_init one_offset_progress)\<lparr>current_wid := Some 7\<rparr>)) = Some 3
   \<and> worker_end end_and_done_line
   \<and> current_wid (attribute_line end_and_done_line
        ((breakdown_init one_offset_progress)\<lparr>current_wid := Some 7\<rparr>)) = Some 7"
  by (simp add: attribute_line_cases overlap_line_shapes breakdown_init_def record_gidx_def
        Let_def)

text \<open>
  C5. For an offset \<open>\<ge> 0\<close>, a stride \<open>\<ge> 1\<close> and a total \<open>\<ge> 0\<close>, the counting loop of
  \<open>cases_for_offset\<close> returns, and what it returns is the closed form
  \<open>ceil((total - offset) / stride)\<close> when \<open>offset < total\<close> and 0 otherwise.
\<close>

theorem cases_for_offset_closed_form:
  assumes "0 \<le> offset" and "1 \<le> stride" and "0 \<le> tot"
  shows "cases_for_offset offset stride tot = Some (cases_for_offset_closed offset stride tot)"
proof -
  have loop: "cases_for_offset offset stride tot =
      Some (if offset < tot then (tot - offset + stride - 1) div stride else 0)"
    using assms(2) by (simp add: cases_for_offset_def cases_for_offset_loop_returns)
  have "cases_for_offset_closed offset stride tot =
      (if offset < tot then (tot - offset + stride - 1) div stride else 0)"
    unfolding cases_for_offset_closed_def by (simp only: ceil_div [OF assms(2)])
  with loop show ?thesis by simp
qed

theorem cases_for_offset_closed_form_witness:
  "(0::int) \<le> 1 \<and> (1::int) \<le> 4 \<and> (0::int) \<le> 455
   \<and> cases_for_offset 1 4 455 = Some 114 \<and> cases_for_offset_closed 1 4 455 = 114"
  using cases_for_offset_closed_form [of 1 4 455]
  by (simp add: cases_for_offset_closed_def)

text \<open>
  C6. For a stride \<open>\<ge> 1\<close> and a total \<open>\<ge> 0\<close>, every call of \<open>cases_for_offset\<close> for the
  offsets \<open>0, \<dots>, stride - 1\<close> returns, and the counts add up to the total.
\<close>

theorem cases_for_offset_partition:
  assumes "1 \<le> stride" and "0 \<le> tot"
  shows "map_option sum_list
           (those (map (\<lambda>offset. cases_for_offset offset stride tot) [0..stride - 1])) = Some tot"
proof -
  have "those (map (\<lambda>offset. cases_for_offset offset stride tot) [0..stride - 1])
      = Some (map (\<lambda>offset. cases_for_offset_div offset stride tot) [0..stride - 1])"
    by (rule those_map_Some) (rule cases_for_offset_returns [OF assms(1)])
  then show ?thesis using cases_for_offset_div_sum_list [OF assms] by simp
qed

theorem cases_for_offset_partition_witness:
  "(1::int) \<le> 4 \<and> (0::int) \<le> 455
   \<and> map_option sum_list (those (map (\<lambda>offset. cases_for_offset offset 4 455) [0..4 - 1])) = Some 455
   \<and> map (\<lambda>offset. cases_for_offset offset 4 455) [0..4 - 1] = [Some 114, Some 114, Some 114, Some 113]"
proof -
  have "map (\<lambda>offset. cases_for_offset offset 4 455) [0..4 - 1] = [Some 114, Some 114, Some 114, Some 113]"
    by (simp add: cases_for_offset_returns cases_for_offset_div_def upto.simps)
  then show ?thesis using cases_for_offset_partition [of 4 455] by simp
qed



text \<open>
  C8, as amended. \<open>worker_case_breakdown_from_logs\<close> returns whenever no existence test
  of a log raises. The set \<open>all_gidx\<close> that it returns is the union of the sets of the
  returned dictionary; and for every line of a log tail that was read, if the line does
  not match the worker-start pattern and the completion pattern is found in it, the global
  index of the line is in the set of some worker identity.
\<close>

theorem breakdown_union:
  "((\<forall>w \<in> set (jp_workers progress).
        log_file e (jp_jobset progress) (w_offset w) \<noteq> Inaccessible)
    \<longrightarrow> (\<exists>pw ag. worker_case_breakdown_from_logs e progress log_max_lines = Inr (pw, ag)))
   \<and> (worker_case_breakdown_from_logs e progress log_max_lines = Inr (pw, ag)
    \<longrightarrow> ag = \<Union> (ran pw)
       \<and> (\<forall>w \<in> set (jp_workers progress). \<forall>lines.
            log_tail (log_file e (jp_jobset progress) (w_offset w)) log_max_lines
              = Inr (Some lines)
            \<longrightarrow> (\<forall>line \<in> set lines. \<forall>gidx.
                   worker_start_id line = None \<and> completion_gidx line = Some (Some gidx)
                   \<longrightarrow> (\<exists>wid s. pw wid = Some s \<and> gidx \<in> s))))"
proof (intro conjI impI)
  assume "\<forall>w \<in> set (jp_workers progress).
        log_file e (jp_jobset progress) (w_offset w) \<noteq> Inaccessible"
  then have "raised (breakdown_run e progress log_max_lines) = None"
    unfolding breakdown_run_def
    by (intro scan_workers_no_raise) (simp_all add: breakdown_init_def)
  then show "\<exists>pw ag. worker_case_breakdown_from_logs e progress log_max_lines = Inr (pw, ag)"
    by (simp add: worker_case_breakdown_from_logs_def Let_def)
next
  assume r: "worker_case_breakdown_from_logs e progress log_max_lines = Inr (pw, ag)"
  then have nr: "raised (breakdown_run e progress log_max_lines) = None"
    and pw: "pw = per_worker (breakdown_run e progress log_max_lines)"
    and ag: "ag = all_gidx (breakdown_run e progress log_max_lines)"
    by (auto simp: worker_case_breakdown_from_logs_def Let_def split: option.splits)
  show u: "ag = \<Union> (ran pw)" unfolding pw ag by (rule breakdown_run_union)
  have "\<exists>wid s. pw wid = Some s \<and> gidx \<in> s"
    if "w \<in> set (jp_workers progress)"
      and "log_tail (log_file e (jp_jobset progress) (w_offset w)) log_max_lines
            = Inr (Some lines)"
      and "line \<in> set lines"
      and "worker_start_id line = None" and "completion_gidx line = Some (Some gidx)"
    for w lines line gidx
  proof -
    have "gidx \<in> all_gidx (scan_workers e log_max_lines (jp_workers progress)
        (breakdown_init progress))"
      by (rule scan_workers_records [OF _ that(1) _ that(3,4,5)])
         (use nr that(2) in \<open>simp_all add: breakdown_init_def breakdown_run_def\<close>)
    then have "gidx \<in> \<Union> (ran pw)" using u ag by (simp add: breakdown_run_def)
    then show ?thesis by (auto simp: ran_def)
  qed
  then show "\<forall>w \<in> set (jp_workers progress). \<forall>lines.
            log_tail (log_file e (jp_jobset progress) (w_offset w)) log_max_lines
              = Inr (Some lines)
            \<longrightarrow> (\<forall>line \<in> set lines. \<forall>gidx.
                   worker_start_id line = None \<and> completion_gidx line = Some (Some gidx)
                   \<longrightarrow> (\<exists>wid s. pw wid = Some s \<and> gidx \<in> s))"
    by blast
qed

theorem breakdown_union_witness:
  "map (\<lambda>w. log_file example_log_env (jp_jobset one_offset_progress) (w_offset w))
       (jp_workers one_offset_progress) = [Text (unlines example_log)]
   \<and> (\<exists>pw ag. worker_case_breakdown_from_logs example_log_env one_offset_progress 2000
         = Inr (pw, ag))
   \<and> worker_case_breakdown_from_logs example_log_env one_offset_progress 2000
       = Inr ([3 \<mapsto> {0, 1}, 0 \<mapsto> {2}], {0, 1, 2})
   \<and> {0, 1, 2} = \<Union> (ran [3 \<mapsto> {0, 1}, (0::int) \<mapsto> {2::int}])"
proof -
  have files: "map (\<lambda>w. log_file example_log_env (jp_jobset one_offset_progress) (w_offset w))
       (jp_workers one_offset_progress) = [Text (unlines example_log)]"
    by (simp add: one_offset_progress_def example_log_env_def)
  have acc: "\<forall>w \<in> set (jp_workers one_offset_progress).
      log_file example_log_env (jp_jobset one_offset_progress) (w_offset w) \<noteq> Inaccessible"
    by (simp add: one_offset_progress_def example_log_env_def)
  from breakdown_union [of one_offset_progress example_log_env 2000 "[3 \<mapsto> {0, 1}, 0 \<mapsto> {2}]"
      "{0, 1, 2}", THEN conjunct1, THEN mp, OF acc]
  have ret: "\<exists>pw ag. worker_case_breakdown_from_logs example_log_env one_offset_progress 2000
         = Inr (pw, ag)" .
  have u: "{0, 1, 2} = \<Union> (ran [3 \<mapsto> {0, 1}, (0::int) \<mapsto> {2::int}])"
    using breakdown_union [of one_offset_progress example_log_env 2000
        "[3 \<mapsto> {0, 1}, 0 \<mapsto> {2}]" "{0, 1, 2}", THEN conjunct2, THEN mp,
        OF example_log_run, THEN conjunct1] .
  from files ret example_log_run u show ?thesis by (intro conjI)
qed

text \<open>
  C8 as it was stated speaks of every completion event. In a log whose only line begins as
  a worker-start line and also holds a completion event with the global index 5, the line
  is taken as a worker-start line, and the index is recorded under no worker identity.
\<close>

theorem breakdown_overlap_unrecorded:
  "log_tail (log_file overlap_log_env (jp_jobset one_offset_progress) 0) 2000
     = Inr (Some [start_and_done_line])
   \<and> completion_gidx start_and_done_line = Some (Some 5)
   \<and> worker_case_breakdown_from_logs overlap_log_env one_offset_progress 2000
       = Inr (Map.empty, {})"
proof -
  have "jp_workers one_offset_progress
      = [\<lparr>w_offset = 0, w_stride = 1, w_last_gidx = None, w_cases_done = 0,
          w_cases_total = 9, w_last_timestamp = None, w_recent_times = [],
          w_status = ''not_started''\<rparr>]"
    by (simp add: one_offset_progress_def)
  then have "worker_case_breakdown_from_logs overlap_log_env one_offset_progress 2000
       = Inr (Map.empty, {})"
    using overlap_log_tail
    by (simp add: worker_case_breakdown_from_logs_def breakdown_run_def scan_worker_log_def
          breakdown_init_def attribute_line_cases overlap_line_shapes Let_def)
  with overlap_log_tail overlap_line_shapes(2) show ?thesis by simp
qed

text \<open>
  C9. The attribution pass does not modify the \<open>JobProgress\<close> it is given: in the state in
  which \<open>worker_case_breakdown_from_logs\<close> ends, by its \<open>return\<close> or by an exception, the
  \<open>JobProgress\<close>, with every field of every \<open>WorkerState\<close>, is the one it started with;
  and what it returns is made of the dictionary and the set alone.
\<close>

theorem breakdown_leaves_progress:
  "b_progress (breakdown_run e progress log_max_lines) = progress
   \<and> worker_case_breakdown_from_logs e progress log_max_lines
       = (case raised (breakdown_run e progress log_max_lines) of
            Some err \<Rightarrow> Inl err
          | None \<Rightarrow> Inr (per_worker (breakdown_run e progress log_max_lines),
                         all_gidx (breakdown_run e progress log_max_lines)))"
proof
  show "b_progress (breakdown_run e progress log_max_lines) = progress"
    by (simp add: breakdown_run_def scan_workers_progress breakdown_init_def)
  show "worker_case_breakdown_from_logs e progress log_max_lines
       = (case raised (breakdown_run e progress log_max_lines) of
            Some err \<Rightarrow> Inl err
          | None \<Rightarrow> Inr (per_worker (breakdown_run e progress log_max_lines),
                         all_gidx (breakdown_run e progress log_max_lines)))"
    by (simp add: worker_case_breakdown_from_logs_def Let_def)
qed

text \<open>
  C10. A call with \<open>rank > n_vertices - 1\<close>, that is with \<open>kdim < 0\<close>, does not return a
  \<open>JobProgress\<close>: the binomial coefficient raises \<open>ValueError\<close>.
\<close>

theorem analyze_job_negative_kdim:
  assumes "n_vertices - 1 < rank"
  shows "analyze_job e jobset graph rank n_vertices stride log_max_lines = Some (Inl ValueError)"
  using assms by (simp add: analyze_job_def math_comb_def Let_def)

theorem analyze_job_negative_kdim_witness:
  "(4::int) - 1 < 5
   \<and> analyze_job spec_example_env ''shri_r3'' ''shrikhande'' 5 4 2 2000 = Some (Inl ValueError)"
  using analyze_job_negative_kdim [of 4 5 spec_example_env "''shri_r3''" "''shrikhande''" 2 2000]
  by simp

end
